theory Spec2Isabelle
  imports Complex_Main "HOL-Library.Char_ord" "HOL-Library.List_Lexorder"
begin

section \<open>Python values, dictionaries and errors\<close>

text \<open>
  The values that reach \<^verbatim>\<open>extractor.py\<close>: spreadsheet cells (None, booleans, numbers,
  strings, dates) and decoded JSON (null, booleans, numbers, strings, lists, objects).
  A \<open>char\<close> stands for one code point of a Python string. A float is carried as the
  real number it denotes (the program never computes with one), a date as year, month
  and day. The model follows Python 3: a dictionary keeps the order in which its keys
  were inserted, and comparing values of different kinds raises \<open>TypeError\<close>.
\<close>

datatype pyval =
    PNone
  | PBool bool
  | PInt int
  | PFloat real
  | PStr string
  | PDate nat nat nat
  | PList "pyval list"
  | PDict "(string \<times> pyval) list"

text \<open>The exceptions the program can raise; a \<open>KeyError\<close> carries the missing key.\<close>

datatype error =
    KeyError pyval
  | TypeError
  | AttributeError
  | IndexError
  | ValueError
  | AssertionError

text \<open>An exception ends the computation; a value is passed on.\<close>

definition raise_or :: "error + 'a \<Rightarrow> ('a \<Rightarrow> error + 'b) \<Rightarrow> error + 'b" where
  "raise_or r f = (case r of Inl e \<Rightarrow> Inl e | Inr v \<Rightarrow> f v)"

text \<open>
  A transaction row, a provider transaction and a provider account are dictionaries
  with string keys. The ledger rows and the rows the merge builds are
  \<^verbatim>\<open>OrderedDict\<close>s: the association list keeps the insertion order.
\<close>

type_synonym row = "(string \<times> pyval) list"

text \<open>\<^verbatim>\<open>d.get(k)\<close>, \<^verbatim>\<open>d.get(k, default)\<close>, \<^verbatim>\<open>d[k]\<close>, \<^verbatim>\<open>d[k] = v\<close> and \<^verbatim>\<open>d.update(e)\<close>.\<close>

definition dict_get_or :: "row \<Rightarrow> string \<Rightarrow> pyval \<Rightarrow> pyval" where
  "dict_get_or d k dflt = (case map_of d k of None \<Rightarrow> dflt | Some v \<Rightarrow> v)"

definition dict_get :: "row \<Rightarrow> string \<Rightarrow> pyval" where
  "dict_get d k = dict_get_or d k PNone"

definition dict_getitem :: "row \<Rightarrow> string \<Rightarrow> error + pyval" where
  "dict_getitem d k = (case map_of d k of None \<Rightarrow> Inl (KeyError (PStr k)) | Some v \<Rightarrow> Inr v)"

primrec dict_setitem :: "string \<Rightarrow> pyval \<Rightarrow> row \<Rightarrow> row" where
  "dict_setitem k v [] = [(k, v)]"
| "dict_setitem k v (p # ps) = (if fst p = k then (k, v) # ps else p # dict_setitem k v ps)"

definition dict_update :: "row \<Rightarrow> row \<Rightarrow> row" where
  "dict_update d e = fold (\<lambda>(k, v). dict_setitem k v) e d"

text \<open>Truth value of a Python object, as \<^verbatim>\<open>if x\<close>, \<^verbatim>\<open>not x\<close> and \<^verbatim>\<open>x or y\<close> test it.\<close>

fun truthy :: "pyval \<Rightarrow> bool" where
  "truthy PNone = False"
| "truthy (PBool b) = b"
| "truthy (PInt i) = (i \<noteq> 0)"
| "truthy (PFloat r) = (r \<noteq> 0)"
| "truthy (PStr s) = (s \<noteq> [])"
| "truthy (PDate y m d) = True"
| "truthy (PList xs) = (xs \<noteq> [])"
| "truthy (PDict kvs) = (kvs \<noteq> [])"

definition py_or :: "pyval \<Rightarrow> pyval \<Rightarrow> pyval" where
  "py_or x y = (if truthy x then x else y)"

text \<open>
  Sets and dictionaries hash their elements: a list or a dictionary is unhashable
  (\<open>TypeError\<close>). Elements are compared with \<^verbatim>\<open>==\<close>, under which booleans, integers and
  floats of the same numeric value are equal.
\<close>

fun hashable :: "pyval \<Rightarrow> bool" where
  "hashable (PList xs) = False"
| "hashable (PDict kvs) = False"
| "hashable v = True"

fun num_of :: "pyval \<Rightarrow> real option" where
  "num_of (PBool b) = Some (if b then 1 else 0)"
| "num_of (PInt i) = Some (of_int i)"
| "num_of (PFloat r) = Some r"
| "num_of v = None"

definition py_eq :: "pyval \<Rightarrow> pyval \<Rightarrow> bool" where
  "py_eq a b = (case num_of a of Some x \<Rightarrow> num_of b = Some x | None \<Rightarrow> a = b)"

text \<open>A set is kept as the list of its elements; \<^verbatim>\<open>v in s\<close> hashes \<open>v\<close>.\<close>

definition py_set :: "pyval list \<Rightarrow> error + pyval list" where
  "py_set vs = (if list_all hashable vs then Inr vs else Inl TypeError)"

definition py_in :: "pyval \<Rightarrow> pyval list \<Rightarrow> error + bool" where
  "py_in v s = (if hashable v then Inr (list_ex (py_eq v) s) else Inl TypeError)"

text \<open>
  A dictionary keyed by values (account ids, descriptions, categories), in insertion
  order: lookup, \<^verbatim>\<open>d[k]\<close> and \<^verbatim>\<open>d[k] = v\<close>, which keeps the key object and the position of
  an entry that is already there.
\<close>

type_synonym 'v pydict = "(pyval \<times> 'v) list"

fun pd_find :: "'v pydict \<Rightarrow> pyval \<Rightarrow> 'v option" where
  "pd_find [] k = None"
| "pd_find ((k', v) # d) k = (if py_eq k k' then Some v else pd_find d k)"

definition pd_getitem :: "'v pydict \<Rightarrow> pyval \<Rightarrow> error + 'v" where
  "pd_getitem d k =
     (if \<not> hashable k then Inl TypeError
      else case pd_find d k of None \<Rightarrow> Inl (KeyError k) | Some v \<Rightarrow> Inr v)"

fun pd_setitem :: "pyval \<Rightarrow> 'v \<Rightarrow> 'v pydict \<Rightarrow> 'v pydict" where
  "pd_setitem k v [] = [(k, v)]"
| "pd_setitem k v ((k', v') # d) =
     (if py_eq k k' then (k', v) # d else (k', v') # pd_setitem k v d)"

text \<open>\<^verbatim>\<open>sep.join(x)\<close>: \<open>x\<close> is iterated, and every item must be a string.\<close>

fun join :: "string \<Rightarrow> string list \<Rightarrow> string" where
  "join sep [] = []"
| "join sep [s] = s"
| "join sep (s # t # ss) = s @ sep @ join sep (t # ss)"

fun strs_of :: "pyval list \<Rightarrow> string list option" where
  "strs_of [] = Some []"
| "strs_of (PStr s # vs) = map_option ((#) s) (strs_of vs)"
| "strs_of (v # vs) = None"

fun str_join :: "string \<Rightarrow> pyval \<Rightarrow> error + string" where
  "str_join sep (PList xs) =
     (case strs_of xs of None \<Rightarrow> Inl TypeError | Some ss \<Rightarrow> Inr (join sep ss))"
| "str_join sep (PStr s) = Inr (join sep (map (\<lambda>c. [c]) s))"
| "str_join sep (PDict kvs) = Inr (join sep (map fst kvs))"
| "str_join sep v = Inl TypeError"

section \<open>The heap of row objects\<close>

text \<open>
  Rows are mutable objects that the ledger list and the merged list share, so a row
  lives in a heap and a list of rows is a list of addresses. Allocation appends to the
  heap. Provider transactions, accounts and the account and category tables are only
  read and are passed as values.
\<close>

type_synonym ref = nat
type_synonym heap = "row list"

definition rows_of :: "heap \<Rightarrow> ref list \<Rightarrow> row list" where
  "rows_of h rs = map ((!) h) rs"

definition valid_refs :: "heap \<Rightarrow> ref list \<Rightarrow> bool" where
  "valid_refs h rs = list_all (\<lambda>a. a < length h) rs"

section \<open>\<^verbatim>\<open>merge_transactions\<close>\<close>

text \<open>
  \<^verbatim>\<open>transaction.get('location', {}).get(k, default)\<close>: the second \<^verbatim>\<open>get\<close> needs a
  dictionary.
\<close>

definition location_get :: "row \<Rightarrow> string \<Rightarrow> pyval \<Rightarrow> error + pyval" where
  "location_get transaction k dflt =
     (case dict_get_or transaction ''location'' (PDict []) of
        PDict loc \<Rightarrow> Inr (dict_get_or loc k dflt)
      | _ \<Rightarrow> Inl AttributeError)"

text \<open>
  The loop body after the duplicate test (lines 90 to 105): the row built for one
  fetched transaction, \<open>None\<close> when the account mask is 7550 (\<^verbatim>\<open>continue\<close>).
\<close>

definition transaction_dict :: "row pydict \<Rightarrow> row \<Rightarrow> error + row option" where
  "transaction_dict account_data transaction =
     raise_or (pd_getitem account_data (dict_get transaction ''account_id'')) (\<lambda>account.
       let d = dict_update [] account in
       if dict_get d ''bank_account_number'' = PStr ''7550'' then Inr None
       else
         let d = dict_setitem ''date'' (dict_get transaction ''date'') d;
             d = dict_setitem ''description'' (dict_get transaction ''name'') d;
             d = dict_setitem ''amount'' (dict_get transaction ''amount'') d
         in
         raise_or (str_join '', '' (py_or (dict_get transaction ''category'') (PList [])))
           (\<lambda>plaid_category.
         let d = dict_setitem ''plaid_category'' (PStr plaid_category) d;
             d = dict_setitem ''transaction_type'' (dict_get transaction ''transaction_type'') d
         in
         raise_or (location_get transaction ''address'' (PDict [])) (\<lambda>address.
         let d = dict_setitem ''address'' address d in
         raise_or (location_get transaction ''city'' PNone) (\<lambda>city.
         let d = dict_setitem ''city'' city d in
         raise_or (location_get transaction ''state'' PNone) (\<lambda>state.
         let d = dict_setitem ''state'' state d in
         raise_or (location_get transaction ''zip'' PNone) (\<lambda>zip_code.
         let d = dict_setitem ''zip'' zip_code d in
         raise_or (location_get transaction ''country'' PNone) (\<lambda>country.
         let d = dict_setitem ''country'' country d;
             d = dict_setitem ''pending'' (dict_get transaction ''pending'') d;
             d = dict_setitem ''transaction_id'' (dict_get transaction ''transaction_id'') d
         in Inr (Some d))))))))"

text \<open>
  One iteration of the loop: \<open>None\<close> for either \<^verbatim>\<open>continue\<close>, the new row otherwise.
\<close>

definition merge_step :: "pyval list \<Rightarrow> row pydict \<Rightarrow> row \<Rightarrow> error + row option" where
  "merge_step existing_transaction_ids account_data transaction =
     (case py_in (dict_get transaction ''transaction_id'') existing_transaction_ids of
        Inl e \<Rightarrow> Inl e
      | Inr True \<Rightarrow> Inr None
      | Inr False \<Rightarrow> transaction_dict account_data transaction)"

text \<open>The loop: a new row is allocated and its address appended to the merged list.\<close>

fun merge_loop ::
  "pyval list \<Rightarrow> row pydict \<Rightarrow> row list \<Rightarrow> heap \<Rightarrow> ref list \<Rightarrow> error + heap \<times> ref list" where
  "merge_loop ids account_data [] h merged = Inr (h, merged)"
| "merge_loop ids account_data (transaction # rest) h merged =
     (case merge_step ids account_data transaction of
        Inl e \<Rightarrow> Inl e
      | Inr None \<Rightarrow> merge_loop ids account_data rest h merged
      | Inr (Some d) \<Rightarrow> merge_loop ids account_data rest (h @ [d]) (merged @ [length h]))"

text \<open>
  Line 82 builds the set of the ledger's ids. \<^verbatim>\<open>list(existing_transactions)\<close> copies the
  list, not the rows: the merged list starts with the ledger's addresses.
\<close>

definition transaction_ids :: "row list \<Rightarrow> pyval list" where
  "transaction_ids rows = map (\<lambda>row. dict_get row ''transaction_id'') rows"

definition merge_transactions ::
  "heap \<Rightarrow> ref list \<Rightarrow> row list \<Rightarrow> row pydict \<Rightarrow> error + heap \<times> ref list" where
  "merge_transactions h existing_transactions new_transactions account_data =
     (case py_set (transaction_ids (rows_of h existing_transactions)) of
        Inl e \<Rightarrow> Inl e
      | Inr existing_transaction_ids \<Rightarrow>
          merge_loop existing_transaction_ids account_data new_transactions h existing_transactions)"

text \<open>
  The rows one run appends, in the order of the fetch: the transactions on which the
  loop body reaches \<^verbatim>\<open>append\<close>.
\<close>

definition accepted_rows :: "pyval list \<Rightarrow> row pydict \<Rightarrow> row list \<Rightarrow> row list" where
  "accepted_rows ids account_data new_transactions =
     List.map_filter
       (\<lambda>transaction. case merge_step ids account_data transaction of
            Inr (Some d) \<Rightarrow> Some d | _ \<Rightarrow> None)
       new_transactions"


text \<open>Pairwise different under \<^verbatim>\<open>==\<close>.\<close>

fun py_distinct :: "pyval list \<Rightarrow> bool" where
  "py_distinct [] = True"
| "py_distinct (v # vs) = (\<not> list_ex (py_eq v) vs \<and> py_distinct vs)"

section \<open>\<^verbatim>\<open>build_account_details\<close>\<close>

text \<open>
  \<^verbatim>\<open>CONFIG["BANK_NAME_MAPPING"]\<close> is a JSON object, a parameter here. Its keys are
  strings, so \<^verbatim>\<open>.get(mask)\<close> finds nothing for a mask that is not a string, and cannot hash
  a list or a dictionary.
\<close>

definition config_get :: "row \<Rightarrow> pyval \<Rightarrow> error + pyval" where
  "config_get d k =
     (case k of
        PStr s \<Rightarrow> Inr (dict_get d s)
      | _ \<Rightarrow> if hashable k then Inr PNone else Inl TypeError)"

text \<open>The record filled in for one account (lines 71 to 76).\<close>

definition account_details :: "row \<Rightarrow> row \<Rightarrow> error + row" where
  "account_details bank_name_mapping account =
     (let d = dict_setitem ''bank_account_number'' (dict_get account ''mask'') [] in
      case config_get bank_name_mapping (dict_get account ''mask'') of
        Inl e \<Rightarrow> Inl e
      | Inr account_name \<Rightarrow>
          let d = dict_setitem ''account_name'' account_name d;
              d = dict_setitem ''institution_type'' (dict_get account ''type'') d;
              d = dict_setitem ''account_type'' (dict_get account ''type'') d;
              d = dict_setitem ''account_subtype'' (dict_get account ''subtype'') d
          in Inr d)"

fun build_loop :: "row \<Rightarrow> row list \<Rightarrow> row pydict \<Rightarrow> error + row pydict" where
  "build_loop bank_name_mapping [] account_dict = Inr account_dict"
| "build_loop bank_name_mapping (account # rest) account_dict =
     (let account_id = dict_get account ''account_id'' in
      if \<not> hashable account_id then Inl TypeError
      else case account_details bank_name_mapping account of
             Inl e \<Rightarrow> Inl e
           | Inr d \<Rightarrow> build_loop bank_name_mapping rest (pd_setitem account_id d account_dict))"

definition build_account_details :: "row \<Rightarrow> row list \<Rightarrow> error + row pydict" where
  "build_account_details bank_name_mapping account_response =
     build_loop bank_name_mapping account_response []"

section \<open>\<^verbatim>\<open>group_transactions_by_category\<close>\<close>

text \<open>
  A \<^verbatim>\<open>Counter\<close> is a dictionary of counts, \<^verbatim>\<open>defaultdict(Counter)\<close> a dictionary of
  counters in which a missing description starts from the empty counter.
\<close>

type_synonym counter = "nat pydict"

definition counter_incr :: "pyval \<Rightarrow> counter \<Rightarrow> counter" where
  "counter_incr k c = pd_setitem k (case pd_find c k of None \<Rightarrow> 1 | Some n \<Rightarrow> n + 1) c"

fun group_loop :: "row list \<Rightarrow> counter pydict \<Rightarrow> error + counter pydict" where
  "group_loop [] category_dict = Inr category_dict"
| "group_loop (transaction # rest) category_dict =
     (case dict_getitem transaction ''category'' of
        Inl e \<Rightarrow> Inl e
      | Inr category \<Rightarrow>
          if truthy category then
            (case dict_getitem transaction ''description'' of
               Inl e \<Rightarrow> Inl e
             | Inr description \<Rightarrow>
                 if \<not> hashable description then Inl TypeError
                 else if \<not> hashable category then Inl TypeError
                 else group_loop rest
                        (pd_setitem description
                           (counter_incr category
                              (case pd_find category_dict description of
                                 None \<Rightarrow> [] | Some c \<Rightarrow> c))
                           category_dict))
          else group_loop rest category_dict)"

definition group_transactions_by_category :: "row list \<Rightarrow> error + counter pydict" where
  "group_transactions_by_category transactions = group_loop transactions []"

text \<open>
  The votes of a ledger for category \<open>c\<close> under description \<open>d\<close>: its rows with a
  non-empty category equal to \<open>c\<close> and a description equal to \<open>d\<close>.
\<close>

definition votes :: "row list \<Rightarrow> pyval \<Rightarrow> pyval \<Rightarrow> nat" where
  "votes transactions d c =
     length (filter (\<lambda>t. truthy (dict_get t ''category'')
                          \<and> py_eq (dict_get t ''description'') d
                          \<and> py_eq (dict_get t ''category'') c) transactions)"

section \<open>\<^verbatim>\<open>apply_transaction_categories\<close>\<close>

text \<open>
  \<^verbatim>\<open>Counter.most_common()\<close> sorts the items by count, largest first, and the sort is
  stable: among equal counts the entry inserted first comes first (the dictionary order
  of Python 3.7 and later).
\<close>

definition most_common :: "counter \<Rightarrow> (pyval \<times> nat) list" where
  "most_common c = sort_key (\<lambda>kn. - int (snd kn)) c"

text \<open>The right-hand side of the assignment on lines 115 and 116.\<close>

definition infer_category :: "counter pydict \<Rightarrow> row \<Rightarrow> error + pyval" where
  "infer_category category_data transaction =
     raise_or (dict_getitem transaction ''description'') (\<lambda>description.
       if \<not> hashable description then Inl TypeError
       else (case pd_find category_data description of
               None \<Rightarrow> Inr PNone
             | Some c \<Rightarrow> if c = [] then Inr PNone else Inr (fst (hd (most_common c)))))"

text \<open>The loop assigns into the row objects in place.\<close>

fun apply_loop :: "counter pydict \<Rightarrow> ref list \<Rightarrow> heap \<Rightarrow> error + heap" where
  "apply_loop category_data [] h = Inr h"
| "apply_loop category_data (a # rest) h =
     (if \<not> truthy (dict_get (h ! a) ''category'') then
        (case infer_category category_data (h ! a) of
           Inl e \<Rightarrow> Inl e
         | Inr c \<Rightarrow>
             apply_loop category_data rest (h[a := dict_setitem ''category'' c (h ! a)]))
      else apply_loop category_data rest h)"

definition apply_transaction_categories ::
  "heap \<Rightarrow> ref list \<Rightarrow> counter pydict \<Rightarrow> error + heap \<times> ref list" where
  "apply_transaction_categories h transactions category_data =
     (case apply_loop category_data transactions h of
        Inl e \<Rightarrow> Inl e
      | Inr h' \<Rightarrow> Inr (h', transactions))"

section \<open>\<^verbatim>\<open>save_results_to_csv\<close>\<close>

text \<open>
  The output file is the list of the records written to it (the header first), each a
  list of cells before \<^verbatim>\<open>csv\<close> formats them; \<open>None\<close> is a file that was never opened.
  \<^verbatim>\<open>CONFIG["FIELDNAMES"]\<close> is a parameter. \<^verbatim>\<open>DictWriter\<close> refuses a row with a key outside
  the field names (\<open>ValueError\<close>) and fills a missing field with the empty string.
\<close>

type_synonym csv_file = "pyval list list"

definition dict_to_list :: "string list \<Rightarrow> row \<Rightarrow> error + pyval list" where
  "dict_to_list fieldnames rowdict =
     (if list_ex (\<lambda>k. k \<notin> set fieldnames) (map fst rowdict) then Inl ValueError
      else Inr (map (\<lambda>key. dict_get_or rowdict key (PStr [])) fieldnames))"

fun writerows :: "string list \<Rightarrow> row list \<Rightarrow> csv_file \<Rightarrow> error option \<times> csv_file" where
  "writerows fieldnames [] f = (None, f)"
| "writerows fieldnames (rowdict # rest) f =
     (case dict_to_list fieldnames rowdict of
        Inl e \<Rightarrow> (Some e, f)
      | Inr cells \<Rightarrow> writerows fieldnames rest (f @ [cells]))"

text \<open>
  The result is the exception raised, if any, and the file afterwards. The assertion
  reads the first row only, and comes before \<^verbatim>\<open>open\<close>.
\<close>

definition save_results_to_csv ::
  "row list \<Rightarrow> string list \<Rightarrow> csv_file option \<Rightarrow> error option \<times> csv_file option" where
  "save_results_to_csv transactions fieldnames file =
     (case transactions of
        [] \<Rightarrow> (Some IndexError, file)
      | first # _ \<Rightarrow>
          if length (map fst first) \<noteq> length fieldnames then (Some AssertionError, file)
          else case writerows fieldnames transactions [map PStr fieldnames] of
                 (e, f) \<Rightarrow> (e, Some f))"

section \<open>The start date of the fetch (line 133)\<close>

text \<open>
  \<^verbatim>\<open>==\<close> on any two values: lists are equal when they have the same length and equal
  items, dictionaries when they have the same keys with equal values.
\<close>

fun eq_deep :: "pyval \<Rightarrow> pyval \<Rightarrow> bool"
  and eq_list :: "pyval list \<Rightarrow> pyval list \<Rightarrow> bool"
  and eq_dict :: "(string \<times> pyval) list \<Rightarrow> (string \<times> pyval) list \<Rightarrow> bool" where
  "eq_deep (PList xs) (PList ys) = eq_list xs ys"
| "eq_deep (PDict d) (PDict e) = (length d = length e \<and> eq_dict d e)"
| "eq_deep a b = py_eq a b"
| "eq_list [] [] = True"
| "eq_list (x # xs) (y # ys) = (eq_deep x y \<and> eq_list xs ys)"
| "eq_list xs ys = False"
| "eq_dict [] e = True"
| "eq_dict ((k, v) # d) e =
     (case map_of e k of None \<Rightarrow> False | Some w \<Rightarrow> eq_deep v w \<and> eq_dict d e)"

text \<open>
  \<^verbatim>\<open>max(rows, key=lambda x: x['date'])\<close> keeps the first row whose key is greater than
  every key before it, and raises \<open>ValueError\<close> on an empty list. The keys are compared
  with \<^verbatim>\<open>>\<close>: two numbers, two strings and two dates compare; two lists compare by their
  first pair of unequal items, or by length when there is none; every other pair is a
  \<open>TypeError\<close>.
\<close>

fun py_gt :: "pyval \<Rightarrow> pyval \<Rightarrow> error + bool"
  and list_gt :: "pyval list \<Rightarrow> pyval list \<Rightarrow> error + bool" where
  "py_gt (PDate y m d) (PDate y' m' d') =
     Inr (y > y' \<or> (y = y' \<and> (m > m' \<or> (m = m' \<and> d > d'))))"
| "py_gt (PStr s) (PStr s') = Inr (s > s')"
| "py_gt (PList xs) (PList ys) = list_gt xs ys"
| "py_gt a b =
     (case (num_of a, num_of b) of
        (Some x, Some y) \<Rightarrow> Inr (x > y)
      | _ \<Rightarrow> Inl TypeError)"
| "list_gt [] ys = Inr False"
| "list_gt (x # xs) [] = Inr True"
| "list_gt (x # xs) (y # ys) = (if eq_deep x y then list_gt xs ys else py_gt x y)"

fun max_loop :: "row list \<Rightarrow> row \<Rightarrow> pyval \<Rightarrow> error + row" where
  "max_loop [] maxitem maxkey = Inr maxitem"
| "max_loop (item # rest) maxitem maxkey =
     (case dict_getitem item ''date'' of
        Inl e \<Rightarrow> Inl e
      | Inr k \<Rightarrow>
          (case py_gt k maxkey of
             Inl e \<Rightarrow> Inl e
           | Inr True \<Rightarrow> max_loop rest item k
           | Inr False \<Rightarrow> max_loop rest maxitem maxkey))"

definition max_by_date :: "row list \<Rightarrow> error + row" where
  "max_by_date rows =
     (case rows of
        [] \<Rightarrow> Inl ValueError
      | item # rest \<Rightarrow>
          (case dict_getitem item ''date'' of
             Inl e \<Rightarrow> Inl e
           | Inr k \<Rightarrow> max_loop rest item k))"

text \<open>
  \<^verbatim>\<open>strftime("%Y-%m-%d")\<close>: the year in decimal without padding (as the C library of
  Linux prints it), the month and the day of a date with two digits each.
\<close>

definition digit :: "nat \<Rightarrow> char" where
  "digit n = ''0123456789'' ! (n mod 10)"

fun decimal :: "nat \<Rightarrow> string" where
  "decimal n = (if n < 10 then [digit n] else decimal (n div 10) @ [digit n])"

declare decimal.simps [simp del]

definition strftime :: "pyval \<Rightarrow> error + string" where
  "strftime v =
     (case v of
        PDate y m d \<Rightarrow>
          Inr (decimal y @ ''-'' @ [digit (m div 10), digit m] @ ''-'' @ [digit (d div 10), digit d])
      | _ \<Rightarrow> Inl AttributeError)"

definition start_date :: "row list \<Rightarrow> error + string" where
  "start_date existing_transactions =
     (case max_by_date existing_transactions of
        Inl e \<Rightarrow> Inl e
      | Inr row \<Rightarrow>
          (case dict_getitem row ''date'' of
             Inl e \<Rightarrow> Inl e
           | Inr d \<Rightarrow> strftime d))"

section \<open>Vocabulary of the properties and example data\<close>

text \<open>The row at address \<open>a\<close> carries the transaction id \<open>v\<close>.\<close>

definition has_id :: "heap \<Rightarrow> pyval \<Rightarrow> ref \<Rightarrow> bool" where
  "has_id h v a = py_eq (dict_get (h ! a) ''transaction_id'') v"

text \<open>
  \<open>d\<close> is the record \<^verbatim>\<open>build_account_details\<close> fills in for \<open>account\<close>: five fields, the
  account's type under both \<^verbatim>\<open>institution_type\<close> and \<^verbatim>\<open>account_type\<close>.
\<close>

definition account_record_of :: "row \<Rightarrow> row \<Rightarrow> bool" where
  "account_record_of account d =
     (d = [(''bank_account_number'', dict_get account ''mask''),
           (''account_name'', dict_get d ''account_name''),
           (''institution_type'', dict_get account ''type''),
           (''account_type'', dict_get account ''type''),
           (''account_subtype'', dict_get account ''subtype'')])"

text \<open>
  The count the model holds for category \<open>c\<close> under description \<open>d\<close> (a missing entry
  counts as zero, as in a \<^verbatim>\<open>Counter\<close>), and the shape of every counter the grouping
  builds: not empty, keys pairwise different, counts positive.
\<close>

definition count_of :: "counter pydict \<Rightarrow> pyval \<Rightarrow> pyval \<Rightarrow> nat" where
  "count_of category_data d c =
     (case pd_find category_data d of
        None \<Rightarrow> 0
      | Some ctr \<Rightarrow> (case pd_find ctr c of None \<Rightarrow> 0 | Some n \<Rightarrow> n))"

definition counter_ok :: "counter \<Rightarrow> bool" where
  "counter_ok ctr = (ctr \<noteq> [] \<and> py_distinct (map fst ctr) \<and> list_all (\<lambda>kn. 0 < snd kn) ctr)"


text \<open>
  Example data: a name table and an account response with one account, and the account
  table built from them; a ledger of three categorised rows; fetched transactions, of
  which \<open>example_duplicate\<close> is in the ledger already, \<open>example_new\<close> and
  \<open>example_twin\<close> share an id the ledger does not hold, \<open>example_partial\<close> has a
  location with a city only, and the two orphans name an account that is not in the
  table; \<open>example_row\<close> and \<open>example_twin_row\<close> are the rows built for
  \<open>example_new\<close> and \<open>example_twin\<close>.
\<close>

definition example_mapping :: row where
  "example_mapping = [(''1234'', PStr ''Checking'')]"

definition example_account_response :: "row list" where
  "example_account_response =
     [[(''account_id'', PStr ''acc_1''), (''mask'', PStr ''1234''),
       (''type'', PStr ''depository''), (''subtype'', PStr ''checking'')]]"

definition example_accounts :: "row pydict" where
  "example_accounts =
     [(PStr ''acc_1'',
       [(''bank_account_number'', PStr ''1234''), (''account_name'', PStr ''Checking''),
        (''institution_type'', PStr ''depository''), (''account_type'', PStr ''depository''),
        (''account_subtype'', PStr ''checking'')])]"

definition example_heap :: heap where
  "example_heap =
     [[(''date'', PDate 2017 3 1), (''description'', PStr ''COFFEE SHOP''),
       (''transaction_id'', PStr ''tx_121''), (''category'', PStr ''Dining'')],
      [(''date'', PDate 2017 3 4), (''description'', PStr ''COFFEE SHOP''),
       (''transaction_id'', PStr ''tx_122''), (''category'', PStr ''Dining'')],
      [(''date'', PDate 2017 3 2), (''description'', PStr ''COFFEE SHOP''),
       (''transaction_id'', PStr ''tx_123''), (''category'', PStr ''Groceries'')]]"

definition example_duplicate :: row where
  "example_duplicate =
     [(''transaction_id'', PStr ''tx_123''), (''account_id'', PStr ''acc_1''),
      (''name'', PStr ''COFFEE SHOP'')]"

definition example_new :: row where
  "example_new =
     [(''transaction_id'', PStr ''tx_124''), (''account_id'', PStr ''acc_1''),
      (''name'', PStr ''COFFEE SHOP''), (''category'', PList [PStr ''Food'', PStr ''Coffee''])]"

definition example_twin :: row where
  "example_twin =
     [(''transaction_id'', PStr ''tx_124''), (''account_id'', PStr ''acc_1''),
      (''name'', PStr ''TEA SHOP'')]"

definition example_partial :: row where
  "example_partial =
     [(''transaction_id'', PStr ''tx_125''), (''account_id'', PStr ''acc_1''),
      (''location'', PDict [(''city'', PStr ''Oslo'')])]"

definition example_orphan_a :: row where
  "example_orphan_a = [(''transaction_id'', PStr ''tx_126''), (''account_id'', PStr ''acc_9'')]"

definition example_orphan_b :: row where
  "example_orphan_b = [(''transaction_id'', PStr ''tx_127''), (''account_id'', PStr ''acc_9'')]"

definition example_fetch :: "row list" where
  "example_fetch = [example_duplicate, example_new]"

definition example_row :: row where
  "example_row =
     [(''bank_account_number'', PStr ''1234''), (''account_name'', PStr ''Checking''),
      (''institution_type'', PStr ''depository''), (''account_type'', PStr ''depository''),
      (''account_subtype'', PStr ''checking''), (''date'', PNone),
      (''description'', PStr ''COFFEE SHOP''), (''amount'', PNone),
      (''plaid_category'', PStr ''Food, Coffee''), (''transaction_type'', PNone),
      (''address'', PDict []), (''city'', PNone), (''state'', PNone),
      (''zip'', PNone), (''country'', PNone), (''pending'', PNone),
      (''transaction_id'', PStr ''tx_124'')]"

definition example_twin_row :: row where
  "example_twin_row =
     [(''bank_account_number'', PStr ''1234''), (''account_name'', PStr ''Checking''),
      (''institution_type'', PStr ''depository''), (''account_type'', PStr ''depository''),
      (''account_subtype'', PStr ''checking''), (''date'', PNone),
      (''description'', PStr ''TEA SHOP''), (''amount'', PNone),
      (''plaid_category'', PStr []), (''transaction_type'', PNone),
      (''address'', PDict []), (''city'', PNone), (''state'', PNone),
      (''zip'', PNone), (''country'', PNone), (''pending'', PNone),
      (''transaction_id'', PStr ''tx_124'')]"

text \<open>
  The row built for \<open>example_partial\<close>, and a ledger row whose category cell is empty.
\<close>

definition example_partial_row :: row where
  "example_partial_row =
     [(''bank_account_number'', PStr ''1234''), (''account_name'', PStr ''Checking''),
      (''institution_type'', PStr ''depository''), (''account_type'', PStr ''depository''),
      (''account_subtype'', PStr ''checking''), (''date'', PNone),
      (''description'', PNone), (''amount'', PNone),
      (''plaid_category'', PStr []), (''transaction_type'', PNone),
      (''address'', PDict []), (''city'', PStr ''Oslo''), (''state'', PNone),
      (''zip'', PNone), (''country'', PNone), (''pending'', PNone),
      (''transaction_id'', PStr ''tx_125'')]"

definition example_blank :: row where
  "example_blank =
     [(''date'', PDate 2017 3 3), (''description'', PStr ''COFFEE SHOP''),
      (''transaction_id'', PStr ''tx_120''), (''category'', PNone)]"

text \<open>
  The model of the example ledger, and an output layout of two columns with a file
  left by an earlier run.
\<close>

definition example_categories :: "counter pydict" where
  "example_categories = [(PStr ''COFFEE SHOP'', [(PStr ''Dining'', 2), (PStr ''Groceries'', 1)])]"

definition example_fieldnames :: "string list" where
  "example_fieldnames = [''transaction_id'', ''category'']"

definition example_old_file :: "csv_file option" where
  "example_old_file = Some [[PStr ''transaction_id'', PStr ''category''], [PStr ''tx_1'', PStr ''Dining'']]"


section \<open>Basic facts\<close>

lemma py_eq_refl: "py_eq a a"
  by (simp add: py_eq_def split: option.splits)

lemma py_eq_sym: "py_eq a b \<Longrightarrow> py_eq b a"
  by (auto simp: py_eq_def split: option.splits)

lemma py_eq_trans: "py_eq a b \<Longrightarrow> py_eq b c \<Longrightarrow> py_eq a c"
  by (auto simp: py_eq_def split: option.splits)

lemma py_eq_hashable: "py_eq a b \<Longrightarrow> hashable a = hashable b"
  by (cases a; cases b) (auto simp: py_eq_def)

lemma map_of_dict_setitem: "map_of (dict_setitem k v d) = (map_of d)(k \<mapsto> v)"
  by (induction d) (auto simp: fun_eq_iff)

lemma dict_get_setitem:
  "dict_get (dict_setitem k v d) k' = (if k' = k then v else dict_get d k')"
  by (simp add: dict_get_def dict_get_or_def map_of_dict_setitem)

lemma raise_or_Inr:
  "raise_or r f = Inr y \<longleftrightarrow> (\<exists>v. r = Inr v \<and> f v = Inr y)"
  by (cases r) (simp_all add: raise_or_def)

lemma transaction_dict_id:
  assumes "transaction_dict account_data t = Inr (Some d)"
  shows "dict_get d ''transaction_id'' = dict_get t ''transaction_id''"
  using assms
  by (auto simp: transaction_dict_def raise_or_Inr Let_def dict_get_setitem split: if_splits)

lemma merge_step_Some:
  assumes "merge_step ids account_data t = Inr (Some d)"
  shows "dict_get d ''transaction_id'' = dict_get t ''transaction_id''"
    and "hashable (dict_get t ''transaction_id'')"
    and "\<not> list_ex (py_eq (dict_get t ''transaction_id'')) ids"
  using assms
  by (auto simp: merge_step_def py_in_def transaction_dict_id split: if_splits sum.splits bool.splits)

lemma accepted_rows_simps:
  "accepted_rows ids ad [] = []"
  "accepted_rows ids ad (t # ts) =
     (case merge_step ids ad t of Inr (Some d) \<Rightarrow> d # accepted_rows ids ad ts
      | _ \<Rightarrow> accepted_rows ids ad ts)"
  by (simp_all add: accepted_rows_def split: sum.splits option.splits)

lemma merge_loop_Inr:
  assumes "merge_loop ids account_data ts h merged = Inr (h', merged')"
  shows "h' = h @ accepted_rows ids account_data ts
       \<and> merged' = merged @ [length h ..< length h + length (accepted_rows ids account_data ts)]"
  using assms
proof (induction ts arbitrary: h merged)
  case Nil
  then show ?case by (simp add: accepted_rows_simps)
next
  case (Cons t ts)
  show ?case
  proof (cases "merge_step ids account_data t")
    case (Inl e)
    with Cons.prems show ?thesis by simp
  next
    case (Inr r)
    show ?thesis
    proof (cases r)
      case None
      with Inr Cons.prems have "merge_loop ids account_data ts h merged = Inr (h', merged')"
        by simp
      from Cons.IH[OF this] Inr None show ?thesis
        by (simp add: accepted_rows_simps)
    next
      case (Some d)
      let ?n = "length (accepted_rows ids account_data ts)"
      from Some Inr Cons.prems
      have "merge_loop ids account_data ts (h @ [d]) (merged @ [length h]) = Inr (h', merged')"
        by simp
      from Cons.IH[OF this]
      have h': "h' = (h @ [d]) @ accepted_rows ids account_data ts"
        and m': "merged' = (merged @ [length h]) @ [length (h @ [d]) ..< length (h @ [d]) + ?n]"
        by simp_all
      have "[length h ..< length h + Suc ?n] = length h # [Suc (length h) ..< Suc (length h) + ?n]"
        by (subst upt_rec) simp
      with h' m' Inr Some show ?thesis
        by (simp add: accepted_rows_simps)
    qed
  qed
qed

lemma merge_loop_total:
  assumes "\<forall>t\<in>set ts. \<exists>r. merge_step ids account_data t = Inr r"
  shows "\<exists>r. merge_loop ids account_data ts h merged = Inr r"
  using assms
proof (induction ts arbitrary: h merged)
  case Nil
  then show ?case by simp
next
  case (Cons t ts)
  then obtain r where "merge_step ids account_data t = Inr r" by auto
  with Cons show ?case by (cases r) auto
qed

lemma merge_loop_Inr_steps:
  assumes "merge_loop ids account_data ts h merged = Inr r" and "t \<in> set ts"
  shows "\<exists>r'. merge_step ids account_data t = Inr r'"
  using assms
proof (induction ts arbitrary: h merged)
  case Nil
  then show ?case by simp
next
  case (Cons u us)
  then show ?case
    by (cases "merge_step ids account_data u") (auto split: option.splits)
qed

lemma merge_loop_append:
  "merge_loop ids ad (ts @ us) h merged =
     (case merge_loop ids ad ts h merged of Inl e \<Rightarrow> Inl e
      | Inr (h1, m1) \<Rightarrow> merge_loop ids ad us h1 m1)"
  by (induction ts arbitrary: h merged) (auto split: sum.splits option.splits)


lemma rows_of_append: "rows_of h (xs @ ys) = rows_of h xs @ rows_of h ys"
  by (simp add: rows_of_def)

lemma rows_of_new: "rows_of (h @ rs) [length h ..< length h + length rs] = rs"
proof -
  have "[length h ..< length h + length rs] = map (\<lambda>i. i + length h) [0 ..< length rs]"
    by (simp add: map_add_upt add.commute)
  then have "rows_of (h @ rs) [length h ..< length h + length rs] =
             map (\<lambda>i. (h @ rs) ! (i + length h)) [0 ..< length rs]"
    by (simp add: rows_of_def comp_def)
  also have "\<dots> = map ((!) rs) [0 ..< length rs]"
    by (rule map_cong) (simp_all add: nth_append)
  also have "\<dots> = rs"
    by (rule map_nth)
  finally show ?thesis .
qed

lemma rows_of_old: "valid_refs h xs \<Longrightarrow> rows_of (h @ rs) xs = rows_of h xs"
  by (auto simp: rows_of_def valid_refs_def list_all_iff nth_append)

lemma merge_transactions_Inr:
  assumes "merge_transactions h existing new account_data = Inr (h', merged)"
  defines "ids \<equiv> transaction_ids (rows_of h existing)"
  shows "list_all hashable ids"
    and "h' = h @ accepted_rows ids account_data new"
    and "merged = existing @ [length h ..< length h + length (accepted_rows ids account_data new)]"
    and "\<forall>t\<in>set new. \<exists>r. merge_step ids account_data t = Inr r"
proof -
  from assms(1) show hash: "list_all hashable ids"
    by (auto simp: merge_transactions_def py_set_def ids_def split: if_splits)
  with assms(1) have loop: "merge_loop ids account_data new h existing = Inr (h', merged)"
    by (simp add: merge_transactions_def py_set_def ids_def)
  from merge_loop_Inr[OF loop]
  show "h' = h @ accepted_rows ids account_data new"
    and "merged = existing @ [length h ..< length h + length (accepted_rows ids account_data new)]"
    by simp_all
  from merge_loop_Inr_steps[OF loop]
  show "\<forall>t\<in>set new. \<exists>r. merge_step ids account_data t = Inr r" by blast
qed

lemma accepted_rows_mem:
  "d \<in> set (accepted_rows ids ad ts) \<longleftrightarrow> (\<exists>t\<in>set ts. merge_step ids ad t = Inr (Some d))"
  by (induction ts) (auto simp: accepted_rows_simps split: sum.splits option.splits)

lemma merge_loop_skip_all:
  assumes "\<forall>t\<in>set ts. merge_step ids ad t = Inr None"
  shows "merge_loop ids ad ts h merged = Inr (h, merged)"
  using assms by (induction ts) auto

lemma list_ex_py_eq_cong:
  "py_eq v w \<Longrightarrow> list_ex (py_eq v) ids = list_ex (py_eq w) ids"
  by (auto simp: list_ex_iff intro: py_eq_trans py_eq_sym)

text \<open>
  A transaction that one run lets through is skipped by a run whose ledger holds the ids
  of the rows the first run appended.
\<close>

lemma merge_step_rerun:
  assumes "merge_step ids ad t = Inr r"
    and "set ids \<subseteq> set ids'"
    and "\<And>d. r = Some d \<Longrightarrow> dict_get d ''transaction_id'' \<in> set ids'"
  shows "merge_step ids' ad t = Inr None"
proof -
  let ?v = "dict_get t ''transaction_id''"
  from assms(1) have hash: "hashable ?v"
    by (auto simp: merge_step_def py_in_def split: if_splits)
  show ?thesis
  proof (cases "list_ex (py_eq ?v) ids'")
    case True
    with hash show ?thesis by (simp add: merge_step_def py_in_def)
  next
    case False
    with assms(2) have notin: "\<not> list_ex (py_eq ?v) ids"
      by (auto simp: list_ex_iff)
    with assms(1) hash have td: "transaction_dict ad t = Inr r"
      by (simp add: merge_step_def py_in_def)
    have "r = None"
    proof (cases r)
      case None
      then show ?thesis .
    next
      case (Some d)
      with td have "dict_get d ''transaction_id'' = ?v"
        by (simp add: transaction_dict_id)
      with assms(3)[OF Some] have "?v \<in> set ids'" by simp
      then have "list_ex (py_eq ?v) ids'"
        by (auto simp: list_ex_iff intro: py_eq_refl)
      with False show ?thesis by simp
    qed
    with td False hash show ?thesis by (simp add: merge_step_def py_in_def)
  qed
qed

lemma accepted_rows_ids:
  assumes "d \<in> set (accepted_rows ids ad ts)"
  shows "hashable (dict_get d ''transaction_id'')"
    and "\<not> list_ex (py_eq (dict_get d ''transaction_id'')) ids"
    and "\<exists>t\<in>set ts. dict_get t ''transaction_id'' = dict_get d ''transaction_id''"
proof -
  from assms obtain t where t: "t \<in> set ts" "merge_step ids ad t = Inr (Some d)"
    by (auto simp: accepted_rows_mem)
  from merge_step_Some[OF t(2)] t(1)
  show "hashable (dict_get d ''transaction_id'')"
    and "\<not> list_ex (py_eq (dict_get d ''transaction_id'')) ids"
    and "\<exists>t\<in>set ts. dict_get t ''transaction_id'' = dict_get d ''transaction_id''"
    by auto
qed

lemma merge_transactions_rerun:
  assumes m: "merge_transactions h existing new ad = Inr (h', merged)"
    and v: "valid_refs h existing"
  shows "merge_transactions h' merged new ad = Inr (h', merged)"
proof -
  let ?ids = "transaction_ids (rows_of h existing)"
  let ?rs = "accepted_rows ?ids ad new"
  let ?ids' = "?ids @ transaction_ids ?rs"
  note f = merge_transactions_Inr[OF m]
  from f(2,3) v have rows: "rows_of h' merged = rows_of h existing @ ?rs"
    by (simp add: rows_of_append rows_of_new rows_of_old)
  then have ids': "transaction_ids (rows_of h' merged) = ?ids'"
    by (simp add: transaction_ids_def)
  have "list_all hashable (transaction_ids ?rs)"
    by (auto simp: list_all_iff transaction_ids_def dest: accepted_rows_ids(1))
  with f(1) have set_ok: "py_set ?ids' = Inr ?ids'"
    by (simp add: py_set_def)
  have "\<forall>t\<in>set new. merge_step ?ids' ad t = Inr None"
  proof
    fix t assume t: "t \<in> set new"
    with f(4) obtain r where r: "merge_step ?ids ad t = Inr r" by blast
    show "merge_step ?ids' ad t = Inr None"
    proof (rule merge_step_rerun[OF r])
      show "set ?ids \<subseteq> set ?ids'" by simp
    next
      fix d assume "r = Some d"
      with r t have "d \<in> set ?rs" by (auto simp: accepted_rows_mem)
      then show "dict_get d ''transaction_id'' \<in> set ?ids'"
        by (simp add: transaction_ids_def)
    qed
  qed
  then have "merge_loop ?ids' ad new h' merged = Inr (h', merged)"
    by (rule merge_loop_skip_all)
  with ids' set_ok show ?thesis
    by (simp add: merge_transactions_def)
qed

lemma has_id_old:
  "a < length h \<Longrightarrow> has_id (h @ rs) v a = has_id h v a"
  by (simp add: has_id_def nth_append)

lemma filter_has_id_old:
  "valid_refs h xs \<Longrightarrow> filter (has_id (h @ rs) v) xs = filter (has_id h v) xs"
  by (rule filter_cong) (auto simp: valid_refs_def list_all_iff has_id_old)

lemma has_id_new:
  "i < length rs \<Longrightarrow> has_id (h @ rs) v (length h + i) = py_eq (dict_get (rs ! i) ''transaction_id'') v"
  by (simp add: has_id_def)

text \<open>No appended row carries an id of the ledger.\<close>

lemma new_rows_not_in_ledger:
  assumes "list_ex (py_eq v) ids"
  shows "list_all (\<lambda>a. \<not> has_id (h @ accepted_rows ids ad ts) v a)
           [length h ..< length h + length (accepted_rows ids ad ts)]"
proof -
  let ?rs = "accepted_rows ids ad ts"
  { fix a assume a: "length h \<le> a" "a < length h + length ?rs"
    then obtain i where i: "a = length h + i" "i < length ?rs"
      by (metis add_diff_inverse_nat leD less_diff_conv2 add.commute)
    then have mem: "?rs ! i \<in> set ?rs" by simp
    have "\<not> has_id (h @ ?rs) v a"
    proof
      assume "has_id (h @ ?rs) v a"
      with i have "py_eq (dict_get (?rs ! i) ''transaction_id'') v"
        by (simp add: has_id_new)
      with assms have "list_ex (py_eq (dict_get (?rs ! i) ''transaction_id'')) ids"
        by (simp add: list_ex_py_eq_cong)
      with accepted_rows_ids(2)[OF mem] show False by simp
    qed }
  then show ?thesis by (auto simp: list_all_iff)
qed

lemma py_distinct_accepted_rows:
  assumes "py_distinct (transaction_ids ts)"
  shows "py_distinct (transaction_ids (accepted_rows ids ad ts))"
  using assms
proof (induction ts)
  case Nil
  then show ?case by (simp add: accepted_rows_simps transaction_ids_def)
next
  case (Cons t ts)
  then have IH: "py_distinct (transaction_ids (accepted_rows ids ad ts))"
    and fresh: "\<not> list_ex (py_eq (dict_get t ''transaction_id'')) (transaction_ids ts)"
    by (simp_all add: transaction_ids_def)
  show ?case
  proof (cases "merge_step ids ad t")
    case (Inl e)
    with IH show ?thesis by (simp add: accepted_rows_simps)
  next
    case (Inr r)
    show ?thesis
    proof (cases r)
      case None
      with Inr IH show ?thesis by (simp add: accepted_rows_simps)
    next
      case (Some d)
      with Inr have id: "dict_get d ''transaction_id'' = dict_get t ''transaction_id''"
        by (simp add: merge_step_Some(1))
      have "\<not> list_ex (py_eq (dict_get t ''transaction_id''))
               (transaction_ids (accepted_rows ids ad ts))"
      proof
        assume "list_ex (py_eq (dict_get t ''transaction_id''))
                 (transaction_ids (accepted_rows ids ad ts))"
        then obtain d' where d': "d' \<in> set (accepted_rows ids ad ts)"
          "py_eq (dict_get t ''transaction_id'') (dict_get d' ''transaction_id'')"
          by (auto simp: list_ex_iff transaction_ids_def)
        from accepted_rows_ids(3)[OF d'(1)] obtain u where u: "u \<in> set ts"
          "dict_get u ''transaction_id'' = dict_get d' ''transaction_id''" by blast
        from u(2) d'(2) have "py_eq (dict_get t ''transaction_id'') (dict_get u ''transaction_id'')"
          by simp
        with u(1) have "list_ex (py_eq (dict_get t ''transaction_id'')) (transaction_ids ts)"
          unfolding list_ex_iff transaction_ids_def by (intro bexI[of _ "dict_get u ''transaction_id''"]) simp_all
        with fresh show False by simp
      qed
      with Inr Some id IH show ?thesis
        by (simp add: accepted_rows_simps transaction_ids_def)
    qed
  qed
qed


text \<open>A transaction whose account is not in the table stops the merge.\<close>

lemma merge_step_unresolved:
  assumes "\<not> list_ex (py_eq (dict_get t ''transaction_id'')) ids"
    and "pd_find ad (dict_get t ''account_id'') = None"
  shows "\<exists>e. merge_step ids ad t = Inl e"
    and "hashable (dict_get t ''transaction_id'') \<Longrightarrow> hashable (dict_get t ''account_id'') \<Longrightarrow>
         merge_step ids ad t = Inl (KeyError (dict_get t ''account_id''))"
  using assms
  by (auto simp: merge_step_def py_in_def transaction_dict_def pd_getitem_def raise_or_def)

lemma not_has_id_ids:
  assumes "\<not> list_ex (has_id h v) existing"
  shows "\<not> list_ex (py_eq v) (transaction_ids (rows_of h existing))"
  using assms
  by (auto simp: list_ex_iff has_id_def transaction_ids_def rows_of_def dest: py_eq_sym)

text \<open>Every record of the account table carries the type of its account twice.\<close>

lemma account_details_record:
  assumes "account_details bank_name_mapping account = Inr d"
  shows "account_record_of account d"
  using assms
  by (auto simp: account_details_def account_record_of_def Let_def dict_get_def dict_get_or_def
      split: sum.splits)

lemma pd_setitem_entry:
  "(k', y) \<in> set (pd_setitem k v d) \<Longrightarrow> y = v \<or> (\<exists>k''. (k'', y) \<in> set d)"
  by (induction d) (auto split: if_splits)

lemma pd_setitem_values: "snd ` set (pd_setitem k v d) \<subseteq> insert v (snd ` set d)"
proof
  fix y assume "y \<in> snd ` set (pd_setitem k v d)"
  then obtain k' where "(k', y) \<in> set (pd_setitem k v d)" by auto
  from pd_setitem_entry[OF this] show "y \<in> insert v (snd ` set d)" by force
qed

lemma pd_find_value: "pd_find d k = Some v \<Longrightarrow> v \<in> snd ` set d"
  by (induction d) (auto split: if_splits)

lemma build_loop_records:
  assumes "build_loop bank_name_mapping accounts account_dict = Inr account_data"
    and "\<forall>d\<in>snd ` set account_dict. \<exists>account\<in>A. account_record_of account d"
    and "set accounts \<subseteq> A"
  shows "\<forall>d\<in>snd ` set account_data. \<exists>account\<in>A. account_record_of account d"
  using assms
proof (induction accounts arbitrary: account_dict)
  case Nil
  then show ?case by simp
next
  case (Cons account rest)
  from Cons.prems(1) obtain d where d: "account_details bank_name_mapping account = Inr d"
    and loop: "build_loop bank_name_mapping rest
                 (pd_setitem (dict_get account ''account_id'') d account_dict) = Inr account_data"
    by (auto simp: Let_def split: if_splits sum.splits)
  from account_details_record[OF d] Cons.prems(3)
  have "\<exists>account\<in>A. account_record_of account d" by auto
  with Cons.prems(2) pd_setitem_values[of "dict_get account ''account_id''" d account_dict]
  have "\<forall>d'\<in>snd ` set (pd_setitem (dict_get account ''account_id'') d account_dict).
          \<exists>account\<in>A. account_record_of account d'"
    by blast
  from Cons.IH[OF loop this] Cons.prems(3) show ?case by simp
qed

lemma transaction_dict_types:
  assumes "transaction_dict account_data t = Inr (Some r)"
    and "\<forall>d\<in>snd ` set account_data. \<exists>account\<in>A. account_record_of account d"
  shows "\<exists>account\<in>A. map_of r ''institution_type'' = Some (dict_get account ''type'')
                    \<and> map_of r ''account_type'' = Some (dict_get account ''type'')"
proof -
  from assms(1) obtain d where find: "pd_find account_data (dict_get t ''account_id'') = Some d"
    by (auto simp: transaction_dict_def raise_or_Inr pd_getitem_def split: if_splits option.splits)
  from pd_find_value[OF find] assms(2)
  obtain account where acc: "account \<in> A" "account_record_of account d"
    by blast
  from acc(2) obtain n where d: "d = [(''bank_account_number'', dict_get account ''mask''),
           (''account_name'', n),
           (''institution_type'', dict_get account ''type''),
           (''account_type'', dict_get account ''type''),
           (''account_subtype'', dict_get account ''subtype'')]"
    by (auto simp: account_record_of_def)
  from assms(1) find
  have "map_of r ''institution_type'' = Some (dict_get account ''type'')
      \<and> map_of r ''account_type'' = Some (dict_get account ''type'')"
    unfolding d
    by (auto simp: transaction_dict_def raise_or_Inr pd_getitem_def dict_update_def Let_def
        map_of_dict_setitem split: if_splits)
  with acc(1) show ?thesis by blast
qed

section \<open>Facts about the frequency model and the inference\<close>

lemma pd_find_setitem:
  "pd_find (pd_setitem k v d) k' = (if py_eq k' k then Some v else pd_find d k')"
proof (induction d)
  case Nil
  then show ?case by simp
next
  case (Cons p d)
  obtain k0 v0 where p: "p = (k0, v0)" by (cases p)
  show ?case
  proof (cases "py_eq k k0")
    case True
    then have "py_eq k' k \<longleftrightarrow> py_eq k' k0"
      by (blast intro: py_eq_trans py_eq_sym)
    with True p show ?thesis by simp
  next
    case False
    then have "py_eq k' k \<Longrightarrow> \<not> py_eq k' k0"
      by (blast intro: py_eq_trans py_eq_sym)
    with False p Cons.IH show ?thesis by auto
  qed
qed

lemma pd_setitem_keys:
  "map fst (pd_setitem k v d) =
     (if list_ex (py_eq k) (map fst d) then map fst d else map fst d @ [k])"
  by (induction d) auto

lemma py_distinct_snoc:
  "py_distinct (ks @ [k]) \<longleftrightarrow> py_distinct ks \<and> \<not> list_ex (py_eq k) ks"
  by (induction ks) (auto simp: list_ex_iff dest: py_eq_sym)

lemma py_distinct_setitem:
  "py_distinct (map fst d) \<Longrightarrow> py_distinct (map fst (pd_setitem k v d))"
  by (simp add: pd_setitem_keys py_distinct_snoc)

lemma pd_setitem_nonempty: "pd_setitem k v d \<noteq> []"
  by (induction d) (auto split: if_splits)

lemma pd_find_cong: "py_eq k k' \<Longrightarrow> pd_find d k = pd_find d k'"
proof (induction d)
  case Nil
  then show ?case by simp
next
  case (Cons p d)
  obtain k0 v0 where p: "p = (k0, v0)" by (cases p)
  from Cons.prems have "py_eq k k0 \<longleftrightarrow> py_eq k' k0"
    by (blast intro: py_eq_trans py_eq_sym)
  with Cons p show ?case by simp
qed

lemma counter_ok_incr:
  assumes "ctr = [] \<or> counter_ok ctr"
  shows "counter_ok (counter_incr c ctr)"
proof -
  let ?n = "case pd_find ctr c of None \<Rightarrow> 1 | Some n \<Rightarrow> n + 1"
  have pos: "0 < ?n" by (simp split: option.splits)
  from assms have d: "py_distinct (map fst ctr)" and p: "list_all (\<lambda>kn. 0 < snd kn) ctr"
    by (auto simp: counter_ok_def)
  have "list_all (\<lambda>kn. 0 < snd kn) (pd_setitem c ?n ctr)"
    unfolding list_all_iff
  proof
    fix kn assume "kn \<in> set (pd_setitem c ?n ctr)"
    then have "(fst kn, snd kn) \<in> set (pd_setitem c ?n ctr)" by simp
    from pd_setitem_entry[OF this] p pos show "0 < snd kn"
      by (auto simp: list_all_iff)
  qed
  with d show ?thesis
    by (simp add: counter_ok_def counter_incr_def pd_setitem_nonempty py_distinct_setitem)
qed

lemma count_of_step:
  "count_of (pd_setitem d0 (counter_incr c0 (case pd_find cd d0 of None \<Rightarrow> [] | Some ctr \<Rightarrow> ctr)) cd) d c =
     count_of cd d c + (if py_eq d d0 \<and> py_eq c c0 then 1 else 0)"
proof (cases "py_eq d d0")
  case False
  then show ?thesis by (simp add: count_of_def pd_find_setitem)
next
  case d: True
  note fd = pd_find_cong[OF d, of cd]
  show ?thesis
  proof (cases "py_eq c c0")
    case False
    with d fd show ?thesis
      by (simp add: count_of_def pd_find_setitem counter_incr_def split: option.splits)
  next
    case c: True
    have fc: "pd_find ctr c = pd_find ctr c0" for ctr :: counter
      by (rule pd_find_cong[OF c])
    from d c fd show ?thesis
      by (simp add: count_of_def pd_find_setitem counter_incr_def fc py_eq_refl split: option.splits)
  qed
qed

lemma votes_Cons:
  "votes (t # ts) d c =
     votes ts d c +
     (if truthy (dict_get t ''category'') \<and> py_eq (dict_get t ''description'') d
         \<and> py_eq (dict_get t ''category'') c then 1 else 0)"
  by (simp add: votes_def)

lemma dict_getitem_Inr: "dict_getitem r k = Inr v \<Longrightarrow> dict_get r k = v"
  by (auto simp: dict_getitem_def dict_get_def dict_get_or_def split: option.splits)

lemma group_loop_step:
  assumes "group_loop (t # rest) cd0 = Inr cd"
  shows "(\<not> truthy (dict_get t ''category'') \<and> group_loop rest cd0 = Inr cd)
       \<or> (truthy (dict_get t ''category'')
          \<and> group_loop rest
               (pd_setitem (dict_get t ''description'')
                  (counter_incr (dict_get t ''category'')
                     (case pd_find cd0 (dict_get t ''description'') of None \<Rightarrow> [] | Some ctr \<Rightarrow> ctr))
                  cd0) = Inr cd)"
proof -
  from assms obtain category where c: "dict_getitem t ''category'' = Inr category"
    by (auto split: sum.splits)
  note cat = dict_getitem_Inr[OF c]
  show ?thesis
  proof (cases "truthy category")
    case False
    with assms c cat show ?thesis by simp
  next
    case True
    with assms c obtain description where d: "dict_getitem t ''description'' = Inr description"
      by (auto split: sum.splits)
    note desc = dict_getitem_Inr[OF d]
    from assms c d True cat desc show ?thesis
      by (auto split: if_splits)
  qed
qed

lemma group_loop_counts:
  assumes "group_loop rows cd0 = Inr cd"
  shows "count_of cd d c = count_of cd0 d c + votes rows d c"
  using assms
proof (induction rows arbitrary: cd0)
  case Nil
  then show ?case by (simp add: votes_def)
next
  case (Cons t rest)
  from group_loop_step[OF Cons.prems] show ?case
  proof (elim disjE conjE)
    assume "\<not> truthy (dict_get t ''category'')" "group_loop rest cd0 = Inr cd"
    with Cons.IH[of cd0] show ?thesis by (simp add: votes_Cons)
  next
    let ?cd1 = "pd_setitem (dict_get t ''description'')
                  (counter_incr (dict_get t ''category'')
                     (case pd_find cd0 (dict_get t ''description'') of None \<Rightarrow> [] | Some ctr \<Rightarrow> ctr))
                  cd0"
    assume tr: "truthy (dict_get t ''category'')" and loop: "group_loop rest ?cd1 = Inr cd"
    have sym: "py_eq d (dict_get t ''description'') = py_eq (dict_get t ''description'') d"
      "py_eq c (dict_get t ''category'') = py_eq (dict_get t ''category'') c"
      by (blast intro: py_eq_sym)+
    from Cons.IH[OF loop] tr show ?thesis
      by (simp add: votes_Cons count_of_step sym)
  qed
qed

lemma group_loop_ok:
  assumes "group_loop rows cd0 = Inr cd"
    and "list_all counter_ok (map snd cd0)"
  shows "list_all counter_ok (map snd cd)"
  using assms
proof (induction rows arbitrary: cd0)
  case Nil
  then show ?case by simp
next
  case (Cons t rest)
  from group_loop_step[OF Cons.prems(1)] show ?case
  proof (elim disjE conjE)
    assume "group_loop rest cd0 = Inr cd"
    from Cons.IH[OF this Cons.prems(2)] show ?thesis .
  next
    let ?ctr0 = "case pd_find cd0 (dict_get t ''description'') of None \<Rightarrow> [] | Some ctr \<Rightarrow> ctr"
    let ?ctr1 = "counter_incr (dict_get t ''category'') ?ctr0"
    let ?cd1 = "pd_setitem (dict_get t ''description'') ?ctr1 cd0"
    assume loop: "group_loop rest ?cd1 = Inr cd"
    have "?ctr0 = [] \<or> counter_ok ?ctr0"
    proof (cases "pd_find cd0 (dict_get t ''description'')")
      case None
      then show ?thesis by simp
    next
      case (Some ctr)
      from pd_find_value[OF Some] Cons.prems(2) Some show ?thesis
        by (auto simp: list_all_iff)
    qed
    then have ok1: "counter_ok ?ctr1" by (rule counter_ok_incr)
    have "list_all counter_ok (map snd ?cd1)"
      unfolding list_all_iff
    proof
      fix x assume "x \<in> set (map snd ?cd1)"
      with pd_setitem_values[of "dict_get t ''description''" ?ctr1 cd0]
      have "x = ?ctr1 \<or> x \<in> snd ` set cd0" by auto
      with ok1 Cons.prems(2) show "counter_ok x" by (auto simp: list_all_iff)
    qed
    from Cons.IH[OF loop this] show ?thesis .
  qed
qed

lemma most_common_hd:
  assumes "ctr \<noteq> []"
  shows "hd (most_common ctr) \<in> set ctr"
    and "\<forall>kn\<in>set ctr. snd kn \<le> snd (hd (most_common ctr))"
proof -
  let ?f = "\<lambda>kn :: pyval \<times> nat. - int (snd kn)"
  let ?ys = "sort_key ?f ctr"
  from assms have "?ys \<noteq> []"
    by (metis length_0_conv length_sort)
  then obtain y ys where ys: "?ys = y # ys" by (cases ?ys) auto
  have "set ?ys = set ctr" by simp
  with ys have mem: "y \<in> set ctr" and sub: "set ctr = insert y (set ys)" by auto
  have "sorted (map ?f ?ys)" by (rule sorted_sort_key)
  with ys have "\<forall>z\<in>set ys. ?f y \<le> ?f z" by simp
  with sub have "\<forall>kn\<in>set ctr. snd kn \<le> snd y" by auto
  with mem ys show "hd (most_common ctr) \<in> set ctr"
    and "\<forall>kn\<in>set ctr. snd kn \<le> snd (hd (most_common ctr))"
    by (simp_all add: most_common_def)
qed

lemma pd_find_distinct:
  assumes "py_distinct (map fst ctr)" and "(c, n) \<in> set ctr"
  shows "pd_find ctr c = Some n"
  using assms
proof (induction ctr)
  case Nil
  then show ?case by simp
next
  case (Cons p ctr)
  obtain k0 n0 where p: "p = (k0, n0)" by (cases p)
  show ?case
  proof (cases "(c, n) = p")
    case True
    with p show ?thesis by (simp add: py_eq_refl)
  next
    case False
    with Cons.prems(2) have mem: "(c, n) \<in> set ctr" by simp
    then have "c \<in> set (map fst ctr)" by force
    with Cons.prems(1) p have "\<not> py_eq k0 c" by (auto simp: list_ex_iff)
    then have "\<not> py_eq c k0" by (blast intro: py_eq_sym)
    with Cons.IH mem Cons.prems(1) p show ?thesis by simp
  qed
qed

lemma pd_find_entry: "pd_find d k = Some v \<Longrightarrow> \<exists>k'. (k', v) \<in> set d"
  by (induction d) (auto split: if_splits)

text \<open>What the inference returns against a model built from a ledger.\<close>

lemma infer_category_votes:
  assumes grp: "group_transactions_by_category ledger = Inr cd"
    and inf: "infer_category cd r = Inr c"
  shows "\<exists>d. map_of r ''description'' = Some d \<and> hashable d
           \<and> (pd_find cd d = None \<longrightarrow> c = PNone)
           \<and> (pd_find cd d \<noteq> None \<longrightarrow>
                  0 < votes ledger d c \<and> (\<forall>c'. votes ledger d c' \<le> votes ledger d c))"
proof -
  from inf obtain d where d: "map_of r ''description'' = Some d" and hash: "hashable d"
    and res: "(case pd_find cd d of None \<Rightarrow> Inr PNone
               | Some ctr \<Rightarrow> if ctr = [] then Inr PNone else Inr (fst (hd (most_common ctr)))) = Inr c"
    by (auto simp: infer_category_def raise_or_Inr dict_getitem_def split: option.splits if_splits)
  from grp have counts: "count_of cd d c' = votes ledger d c'" for c'
    using group_loop_counts[of ledger "[]" cd d c']
    by (simp add: group_transactions_by_category_def count_of_def)
  from grp have ok: "list_all counter_ok (map snd cd)"
    using group_loop_ok[of ledger "[]" cd]
    by (simp add: group_transactions_by_category_def)
  have none: "pd_find cd d = None \<longrightarrow> c = PNone"
    using res by auto
  have some: "pd_find cd d \<noteq> None \<longrightarrow>
                  0 < votes ledger d c \<and> (\<forall>c'. votes ledger d c' \<le> votes ledger d c)"
  proof
    assume "pd_find cd d \<noteq> None"
    then obtain ctr where ctr: "pd_find cd d = Some ctr" by auto
    from pd_find_value[OF ctr] ok have cok: "counter_ok ctr"
      by (auto simp: list_all_iff)
    then have ne: "ctr \<noteq> []" and dist: "py_distinct (map fst ctr)"
      and pos: "list_all (\<lambda>kn. 0 < snd kn) ctr"
      by (simp_all add: counter_ok_def)
    let ?top = "hd (most_common ctr)"
    from res ctr ne have c: "c = fst ?top" by simp
    note top = most_common_hd[OF ne]
    from top(1) have "(c, snd ?top) \<in> set ctr" by (simp add: c)
    from pd_find_distinct[OF dist this] have fc: "pd_find ctr c = Some (snd ?top)" .
    with ctr counts[of c] have vc: "votes ledger d c = snd ?top"
      by (simp add: count_of_def)
    from top(1) pos have "0 < snd ?top" by (auto simp: list_all_iff)
    moreover have "votes ledger d c' \<le> snd ?top" for c'
    proof (cases "pd_find ctr c'")
      case None
      with ctr counts[of c'] show ?thesis by (simp add: count_of_def)
    next
      case (Some n')
      from pd_find_entry[OF Some] obtain k' where "(k', n') \<in> set ctr" by blast
      with top(2) have "n' \<le> snd ?top" by force
      with Some ctr counts[of c'] show ?thesis by (simp add: count_of_def)
    qed
    ultimately show "0 < votes ledger d c \<and> (\<forall>c'. votes ledger d c' \<le> votes ledger d c)"
      by (simp add: vc)
  qed
  show ?thesis
    by (rule exI[of _ d]) (intro conjI d hash none some)
qed

text \<open>The model has an entry for a description exactly when the ledger votes for it.\<close>

lemma model_entry_iff_votes:
  assumes grp: "group_transactions_by_category ledger = Inr cd"
  shows "pd_find cd d = None \<longleftrightarrow> (\<forall>c'. votes ledger d c' = 0)"
proof
  from grp have counts: "count_of cd d c' = votes ledger d c'" for c'
    using group_loop_counts[of ledger "[]" cd d c']
    by (simp add: group_transactions_by_category_def count_of_def)
  { assume "pd_find cd d = None"
    with counts show "\<forall>c'. votes ledger d c' = 0"
      by (simp add: count_of_def) }
  { assume zero: "\<forall>c'. votes ledger d c' = 0"
    show "pd_find cd d = None"
    proof (rule ccontr)
      assume "pd_find cd d \<noteq> None"
      then obtain ctr where ctr: "pd_find cd d = Some ctr" by auto
      from grp have "list_all counter_ok (map snd cd)"
        using group_loop_ok[of ledger "[]" cd]
        by (simp add: group_transactions_by_category_def)
      with pd_find_value[OF ctr] have "counter_ok ctr"
        by (auto simp: list_all_iff)
      then have ne: "ctr \<noteq> []" and dist: "py_distinct (map fst ctr)"
        and pos: "list_all (\<lambda>kn. 0 < snd kn) ctr"
        by (simp_all add: counter_ok_def)
      from ne obtain k n where kn: "(k, n) \<in> set ctr"
        by (cases ctr) auto
      with pos have "0 < n" by (auto simp: list_all_iff)
      moreover from pd_find_distinct[OF dist kn] ctr counts[of k]
      have "votes ledger d k = n" by (simp add: count_of_def)
      ultimately show False using zero by simp
    qed }
qed

lemma infer_category_total:
  assumes "map_of r ''description'' = Some d" and "hashable d"
  shows "\<exists>c. infer_category cd r = Inr c"
  using assms
  by (auto simp: infer_category_def raise_or_def dict_getitem_def split: option.splits)

lemma dict_setitem_twice: "dict_setitem k v (dict_setitem k v' d) = dict_setitem k v d"
  by (induction d) auto

lemma infer_category_setitem:
  "infer_category cd (dict_setitem ''category'' c r) = infer_category cd r"
  by (simp add: infer_category_def dict_getitem_def map_of_dict_setitem)

lemma apply_loop_length: "apply_loop cd ts h = Inr h' \<Longrightarrow> length h' = length h"
proof (induction ts arbitrary: h)
  case Nil
  then show ?case by simp
next
  case (Cons a ts)
  then show ?case
    by (fastforce split: if_splits sum.splits)
qed

text \<open>The loop leaves a row alone that has a category or is not in the list.\<close>

lemma apply_loop_frame:
  assumes "apply_loop cd ts h = Inr h'"
    and "truthy (dict_get (h ! a) ''category'') \<or> a \<notin> set ts"
  shows "h' ! a = h ! a"
  using assms
proof (induction ts arbitrary: h)
  case Nil
  then show ?case by simp
next
  case (Cons a0 ts)
  show ?case
  proof (cases "truthy (dict_get (h ! a0) ''category'')")
    case True
    with Cons.prems have "apply_loop cd ts h = Inr h'" by simp
    from Cons.IH[OF this] Cons.prems(2) show ?thesis by auto
  next
    case False
    with Cons.prems(1) obtain c where c: "infer_category cd (h ! a0) = Inr c"
      and loop: "apply_loop cd ts (h[a0 := dict_setitem ''category'' c (h ! a0)]) = Inr h'"
      by (auto split: sum.splits)
    from False Cons.prems(2) have ne: "a \<noteq> a0" by auto
    then have same: "h[a0 := dict_setitem ''category'' c (h ! a0)] ! a = h ! a" by simp
    from Cons.prems(2) ne
    have "truthy (dict_get (h[a0 := dict_setitem ''category'' c (h ! a0)] ! a) ''category'')
          \<or> a \<notin> set ts"
      by (auto simp: same)
    from Cons.IH[OF loop this] same show ?thesis by simp
  qed
qed

text \<open>The loop assigns the inferred category to a row of the list that has none.\<close>

lemma apply_loop_infers:
  assumes "apply_loop cd ts h = Inr h'"
    and "a \<in> set ts" and "a < length h"
    and "\<not> truthy (dict_get (h ! a) ''category'')"
  shows "\<exists>c. infer_category cd (h ! a) = Inr c \<and> h' ! a = dict_setitem ''category'' c (h ! a)"
  using assms
proof (induction ts arbitrary: h)
  case Nil
  then show ?case by simp
next
  case (Cons a0 ts)
  show ?case
  proof (cases "truthy (dict_get (h ! a0) ''category'')")
    case True
    with Cons.prems have loop: "apply_loop cd ts h = Inr h'" and "a \<noteq> a0" by auto
    with Cons.prems have "a \<in> set ts" by simp
    from Cons.IH[OF loop this Cons.prems(3,4)] show ?thesis .
  next
    case False
    let ?h1 = "\<lambda>c. h[a0 := dict_setitem ''category'' c (h ! a0)]"
    from False Cons.prems(1) obtain c where c: "infer_category cd (h ! a0) = Inr c"
      and loop: "apply_loop cd ts (?h1 c) = Inr h'"
      by (auto split: sum.splits)
    show ?thesis
    proof (cases "a = a0")
      case ne: False
      with Cons.prems(2) have mem: "a \<in> set ts" by simp
      from ne have same: "?h1 c ! a = h ! a" by simp
      from Cons.IH[OF loop mem] Cons.prems(3,4) same show ?thesis by simp
    next
      case eq: True
      with Cons.prems(3) have at: "?h1 c ! a = dict_setitem ''category'' c (h ! a)" by simp
      then have cat: "dict_get (?h1 c ! a) ''category'' = c"
        by (simp add: dict_get_setitem)
      show ?thesis
      proof (cases "a \<in> set ts \<and> \<not> truthy c")
        case True
        with cat have mem: "a \<in> set ts" and f1: "\<not> truthy (dict_get (?h1 c ! a) ''category'')"
          by simp_all
        from Cons.prems(3) have len: "a < length (?h1 c)" by simp
        from Cons.IH[OF loop mem len f1]
        obtain c' where "infer_category cd (?h1 c ! a) = Inr c'"
          and "h' ! a = dict_setitem ''category'' c' (?h1 c ! a)"
          by auto
        with at c eq show ?thesis
          by (simp add: infer_category_setitem dict_setitem_twice)
      next
        case False
        with cat have "truthy (dict_get (?h1 c ! a) ''category'') \<or> a \<notin> set ts" by auto
        from apply_loop_frame[OF loop this] at c eq show ?thesis by simp
      qed
    qed
  qed
qed

lemma apply_loop_total:
  assumes "\<forall>a\<in>set ts. \<not> truthy (dict_get (h ! a) ''category'') \<longrightarrow>
             (\<exists>d. map_of (h ! a) ''description'' = Some d \<and> hashable d)"
    and "valid_refs h ts"
  shows "\<exists>h'. apply_loop cd ts h = Inr h'"
  using assms
proof (induction ts arbitrary: h)
  case Nil
  then show ?case by simp
next
  case (Cons a0 ts)
  from Cons.prems(2) have a0: "a0 < length h" and v: "valid_refs h ts"
    by (simp_all add: valid_refs_def)
  show ?case
  proof (cases "truthy (dict_get (h ! a0) ''category'')")
    case True
    from Cons.prems(1) have "\<forall>a\<in>set ts. \<not> truthy (dict_get (h ! a) ''category'') \<longrightarrow>
             (\<exists>d. map_of (h ! a) ''description'' = Some d \<and> hashable d)" by simp
    from Cons.IH[OF this v] True show ?thesis by simp
  next
    case False
    with Cons.prems(1) obtain d where d: "map_of (h ! a0) ''description'' = Some d" "hashable d"
      by auto
    from infer_category_total[OF d] obtain c where c: "infer_category cd (h ! a0) = Inr c"
      by blast
    let ?h1 = "h[a0 := dict_setitem ''category'' c (h ! a0)]"
    have "\<forall>a\<in>set ts. \<not> truthy (dict_get (?h1 ! a) ''category'') \<longrightarrow>
             (\<exists>d. map_of (?h1 ! a) ''description'' = Some d \<and> hashable d)"
    proof (intro ballI impI)
      fix a assume a: "a \<in> set ts" and f: "\<not> truthy (dict_get (?h1 ! a) ''category'')"
      show "\<exists>d. map_of (?h1 ! a) ''description'' = Some d \<and> hashable d"
      proof (cases "a = a0")
        case True
        with a0 d show ?thesis by (simp add: map_of_dict_setitem)
      next
        case False
        with a f Cons.prems(1) show ?thesis by simp
      qed
    qed
    moreover from v have "valid_refs ?h1 ts" by (simp add: valid_refs_def)
    ultimately obtain h' where "apply_loop cd ts ?h1 = Inr h'"
      using Cons.IH[of ?h1] by blast
    with False c show ?thesis by simp
  qed
qed

text \<open>Evaluation of the merge on concrete data.\<close>

lemmas eval_defs =
  merge_transactions_def py_set_def transaction_ids_def rows_of_def valid_refs_def
  dict_get_def dict_get_or_def merge_step_def py_in_def py_eq_def transaction_dict_def
  raise_or_def pd_getitem_def dict_update_def location_get_def py_or_def Let_def

lemmas example_defs =
  example_heap_def example_accounts_def example_fetch_def example_duplicate_def
  example_new_def example_twin_def example_partial_def example_orphan_a_def
  example_orphan_b_def example_row_def example_twin_row_def

lemma example_valid: "valid_refs example_heap [0, 1, 2]"
  by (simp add: valid_refs_def example_heap_def)

lemma example_merge:
  "merge_transactions example_heap [0, 1, 2] example_fetch example_accounts =
     Inr (example_heap @ [example_row], [0, 1, 2, 3])"
  by (simp add: eval_defs example_defs)


lemma example_merge_three:
  "merge_transactions example_heap [0, 1, 2] [example_duplicate, example_new, example_partial]
     example_accounts =
     Inr (example_heap @ [example_row, example_partial_row], [0, 1, 2, 3, 4])"
  by (simp add: eval_defs example_defs example_partial_row_def)

lemma example_merge_again:
  "merge_transactions (example_heap @ [example_row, example_twin_row]) [0, 1, 2, 3, 4]
     [example_new] example_accounts =
     Inr (example_heap @ [example_row, example_twin_row], [0, 1, 2, 3, 4])"
  by (simp add: eval_defs example_defs)

lemma example_merge_twins_reversed:
  "merge_transactions example_heap [0, 1, 2] [example_twin, example_new] example_accounts =
     Inr (example_heap @ [example_twin_row, example_row], [0, 1, 2, 3, 4])"
  by (simp add: eval_defs example_defs)

lemma example_merge_new:
  "merge_transactions example_heap [0, 1, 2] [example_new] example_accounts =
     Inr (example_heap @ [example_row], [0, 1, 2, 3])"
  by (simp add: eval_defs example_defs)

lemma example_build:
  "build_account_details example_mapping example_account_response = Inr example_accounts"
  by (simp add: build_account_details_def account_details_def config_get_def Let_def
      dict_get_def dict_get_or_def example_mapping_def example_account_response_def example_accounts_def)

lemmas apply_defs =
  apply_transaction_categories_def infer_category_def most_common_def raise_or_def
  dict_getitem_def dict_get_def dict_get_or_def py_eq_def

lemma example_group:
  "group_transactions_by_category example_heap = Inr example_categories"
  by (simp add: group_transactions_by_category_def counter_incr_def dict_getitem_def py_eq_def
      example_heap_def example_categories_def)

lemma example_apply:
  "apply_transaction_categories (example_heap @ [example_row, example_twin_row]) [0, 1, 2, 3, 4]
     example_categories =
   Inr (example_heap @ [dict_setitem ''category'' (PStr ''Dining'') example_row,
                        dict_setitem ''category'' PNone example_twin_row], [0, 1, 2, 3, 4])"
  by (simp add: apply_defs example_defs example_categories_def)

lemma example_group_blank:
  "group_transactions_by_category (example_heap @ [example_blank]) = Inr example_categories"
  by (simp add: group_transactions_by_category_def counter_incr_def dict_getitem_def py_eq_def
      example_heap_def example_blank_def example_categories_def)

lemma example_apply_blank:
  "apply_transaction_categories (example_heap @ [example_blank, example_row, example_twin_row])
     [0, 1, 2, 3, 4, 5] example_categories =
   Inr (example_heap @ [dict_setitem ''category'' (PStr ''Dining'') example_blank,
                        dict_setitem ''category'' (PStr ''Dining'') example_row,
                        dict_setitem ''category'' PNone example_twin_row], [0, 1, 2, 3, 4, 5])"
  by (simp add: apply_defs example_defs example_blank_def example_categories_def)

lemma example_valid_blank:
  "valid_refs (example_heap @ [example_blank, example_row, example_twin_row]) [0, 1, 2, 3, 4, 5]"
  by (simp add: valid_refs_def example_heap_def)

lemma example_valid_merged:
  "valid_refs (example_heap @ [example_row, example_twin_row]) [0, 1, 2, 3, 4]"
  by (simp add: valid_refs_def example_heap_def)

lemmas save_defs =
  save_results_to_csv_def dict_to_list_def dict_get_or_def
  example_fieldnames_def example_old_file_def

section \<open>The claims\<close>

text \<open>
  Claim C1, as amended. A fetched transaction whose id is among the ledger's ids is
  skipped: the loop body takes the first \<^verbatim>\<open>continue\<close>, no appended row carries its id, and
  the rows of the merged list with that id are the ledger's rows with that id, so
  exactly one, the original and unchanged, when the ledger holds the id once. A ledger
  that holds the id twice keeps both rows. Merging the same fetch into the result of
  the merge appends nothing, and one run appends no id twice when the ids of the fetch
  are pairwise different. One run on a fetch that carries a new id twice appends it
  twice, so the same holds for two runs on identical inputs.
\<close>

theorem merge_transactions_skips_existing:
  assumes m: "merge_transactions h existing new account_data = Inr (h', merged)"
    and v: "valid_refs h existing"
    and t: "t \<in> set new"
    and dup: "list_ex (has_id h (dict_get t ''transaction_id'')) existing"
  shows "merge_step (transaction_ids (rows_of h existing)) account_data t = Inr None
       \<and> list_all (\<lambda>a. \<not> has_id h' (dict_get t ''transaction_id'') a)
           (drop (length existing) merged)
       \<and> filter (has_id h' (dict_get t ''transaction_id'')) merged =
           filter (has_id h (dict_get t ''transaction_id'')) existing
       \<and> (\<forall>a. filter (has_id h (dict_get t ''transaction_id'')) existing = [a] \<longrightarrow>
              filter (has_id h' (dict_get t ''transaction_id'')) merged = [a] \<and> h' ! a = h ! a)
       \<and> merge_transactions h' merged new account_data = Inr (h', merged)
       \<and> (py_distinct (transaction_ids new) \<longrightarrow>
            py_distinct (transaction_ids (rows_of h' (drop (length existing) merged))))"
proof -
  let ?v = "dict_get t ''transaction_id''"
  let ?ids = "transaction_ids (rows_of h existing)"
  let ?rs = "accepted_rows ?ids account_data new"
  let ?new = "[length h ..< length h + length ?rs]"
  note f = merge_transactions_Inr[OF m]
  from dup have "list_ex (\<lambda>x. py_eq x ?v) ?ids"
    by (auto simp: list_ex_iff has_id_def transaction_ids_def rows_of_def)
  then have in_ids: "list_ex (py_eq ?v) ?ids"
    by (auto simp: list_ex_iff intro: py_eq_sym)
  from f(4) t obtain r where "merge_step ?ids account_data t = Inr r" by blast
  with in_ids have c0: "merge_step ?ids account_data t = Inr None"
    by (auto simp: merge_step_def py_in_def split: if_splits)
  have none: "list_all (\<lambda>a. \<not> has_id h' ?v a) ?new"
    unfolding f(2) by (rule new_rows_not_in_ledger[OF in_ids])
  with f(3) have c1: "list_all (\<lambda>a. \<not> has_id h' ?v a) (drop (length existing) merged)"
    by simp
  from none have "filter (has_id h' ?v) ?new = []"
    by (auto simp: list_all_iff filter_empty_conv)
  with f(2,3) v have c2: "filter (has_id h' ?v) merged = filter (has_id h ?v) existing"
    by (simp add: filter_has_id_old)
  have c3: "\<forall>a. filter (has_id h ?v) existing = [a] \<longrightarrow>
              filter (has_id h' ?v) merged = [a] \<and> h' ! a = h ! a"
  proof (intro allI impI)
    fix a assume a: "filter (has_id h ?v) existing = [a]"
    then have "a \<in> set (filter (has_id h ?v) existing)" by simp
    then have "a \<in> set existing" by simp
    with v have "a < length h" by (auto simp: valid_refs_def list_all_iff)
    with f(2) have "h' ! a = h ! a" by (simp add: nth_append)
    with c2 a show "filter (has_id h' ?v) merged = [a] \<and> h' ! a = h ! a" by simp
  qed
  from f(2,3) have "rows_of h' (drop (length existing) merged) = ?rs"
    by (simp add: rows_of_new)
  then have c5: "py_distinct (transaction_ids new) \<longrightarrow>
            py_distinct (transaction_ids (rows_of h' (drop (length existing) merged)))"
    by (simp add: py_distinct_accepted_rows)
  from c0 c1 c2 c3 c5 merge_transactions_rerun[OF m v] show ?thesis by blast
qed

theorem merge_transactions_skips_existing_witness:
  "merge_transactions example_heap [0, 1, 2] [example_duplicate, example_new, example_partial]
     example_accounts =
     Inr (example_heap @ [example_row, example_partial_row], [0, 1, 2, 3, 4])
   \<and> valid_refs example_heap [0, 1, 2]
   \<and> example_duplicate \<in> set [example_duplicate, example_new, example_partial]
   \<and> list_ex (has_id example_heap (dict_get example_duplicate ''transaction_id'')) [0, 1, 2]
   \<and> filter (has_id example_heap (dict_get example_duplicate ''transaction_id'')) [0, 1, 2] = [2]
   \<and> merge_step (transaction_ids (rows_of example_heap [0, 1, 2])) example_accounts
         example_duplicate = Inr None
   \<and> filter (has_id (example_heap @ [example_row, example_partial_row])
         (dict_get example_duplicate ''transaction_id'')) [0, 1, 2, 3, 4] = [2]
   \<and> (example_heap @ [example_row, example_partial_row]) ! 2 = example_heap ! 2
   \<and> merge_transactions (example_heap @ [example_row, example_partial_row]) [0, 1, 2, 3, 4]
         [example_duplicate, example_new, example_partial] example_accounts =
       Inr (example_heap @ [example_row, example_partial_row], [0, 1, 2, 3, 4])
   \<and> py_distinct (transaction_ids [example_duplicate, example_new, example_partial])
   \<and> transaction_ids (rows_of (example_heap @ [example_row, example_partial_row])
         (drop 3 [0, 1, 2, 3, 4])) = [PStr ''tx_124'', PStr ''tx_125'']
   \<and> py_distinct (transaction_ids (rows_of (example_heap @ [example_row, example_partial_row])
         (drop 3 [0, 1, 2, 3, 4])))"
proof -
  have t: "example_duplicate \<in> set [example_duplicate, example_new, example_partial]"
    by simp
  have one: "filter (has_id example_heap (dict_get example_duplicate ''transaction_id'')) [0, 1, 2] = [2]"
    by (simp add: has_id_def dict_get_def dict_get_or_def py_eq_def example_defs)
  then have dup: "list_ex (has_id example_heap (dict_get example_duplicate ''transaction_id'')) [0, 1, 2]"
    by (simp add: has_id_def dict_get_def dict_get_or_def py_eq_def example_defs)
  have d: "py_distinct (transaction_ids [example_duplicate, example_new, example_partial])"
    by (simp add: transaction_ids_def dict_get_def dict_get_or_def py_eq_def example_defs)
  have ids: "transaction_ids (rows_of (example_heap @ [example_row, example_partial_row])
         (drop 3 [0, 1, 2, 3, 4])) = [PStr ''tx_124'', PStr ''tx_125'']"
    by (simp add: transaction_ids_def rows_of_def dict_get_def dict_get_or_def
        example_defs example_partial_row_def)
  from merge_transactions_skips_existing[OF example_merge_three example_valid t dup] one d ids
    example_merge_three example_valid t dup
  show ?thesis by simp
qed

theorem merge_transactions_duplicate_ledger_counterexample:
  "merge_transactions (example_heap @ [example_row, example_twin_row]) [0, 1, 2, 3, 4]
     [example_new] example_accounts =
     Inr (example_heap @ [example_row, example_twin_row], [0, 1, 2, 3, 4])
   \<and> dict_get example_new ''transaction_id'' = PStr ''tx_124''
   \<and> filter (has_id (example_heap @ [example_row, example_twin_row]) (PStr ''tx_124''))
         [0, 1, 2, 3, 4] = [3, 4]
   \<and> merge_transactions example_heap [0, 1, 2] [example_twin, example_new] example_accounts =
     Inr (example_heap @ [example_twin_row, example_row], [0, 1, 2, 3, 4])
   \<and> \<not> list_ex (has_id example_heap (PStr ''tx_124'')) [0, 1, 2]
   \<and> transaction_ids (rows_of (example_heap @ [example_twin_row, example_row]) [3, 4]) =
       [PStr ''tx_124'', PStr ''tx_124'']"
  using example_merge_again example_merge_twins_reversed
  by (simp add: has_id_def dict_get_def dict_get_or_def py_eq_def example_defs
      transaction_ids_def rows_of_def)

text \<open>
  Claim C2. For every ledger and every fetch on which \<^verbatim>\<open>merge_transactions\<close> returns, the
  returned list begins with the ledger's rows, the same objects in the same order,
  followed by the accepted new rows in the order of the fetch, each a newly allocated
  object; no object that existed before the call is changed, so the ledger rows are not
  mutated.
\<close>

theorem merge_transactions_append_only:
  assumes "merge_transactions h existing new account_data = Inr (h', merged)"
    and "valid_refs h existing"
  shows "take (length existing) merged = existing
       \<and> drop (length existing) merged = [length h ..< length h']
       \<and> (\<forall>a < length h. h' ! a = h ! a)
       \<and> rows_of h' merged =
           rows_of h existing @
           accepted_rows (transaction_ids (rows_of h existing)) account_data new"
proof -
  note m = merge_transactions_Inr[OF assms(1)]
  from m(3) have "take (length existing) merged = existing" by simp
  moreover from m(2,3) have "drop (length existing) merged = [length h ..< length h']" by simp
  moreover from m(2) have "\<forall>a < length h. h' ! a = h ! a" by (simp add: nth_append)
  moreover from m(2,3) assms(2)
  have "rows_of h' merged =
          rows_of h existing @
          accepted_rows (transaction_ids (rows_of h existing)) account_data new"
    by (simp add: rows_of_append rows_of_new rows_of_old)
  ultimately show ?thesis by blast
qed

theorem merge_transactions_append_only_witness:
  "valid_refs example_heap [0, 1, 2]
   \<and> merge_transactions example_heap [0, 1, 2] example_fetch example_accounts =
       Inr (example_heap @ [example_row], [0, 1, 2, 3])
   \<and> take 3 [0, 1, 2, 3] = [0, 1, 2 :: nat]
   \<and> drop 3 [0, 1, 2, 3] = [length example_heap ..< length (example_heap @ [example_row])]
   \<and> accepted_rows (transaction_ids (rows_of example_heap [0, 1, 2])) example_accounts example_fetch =
       [example_row]
   \<and> rows_of (example_heap @ [example_row]) [0, 1, 2, 3] = rows_of example_heap [0, 1, 2] @ [example_row]"
proof -
  have "accepted_rows (transaction_ids (rows_of example_heap [0, 1, 2])) example_accounts example_fetch =
       [example_row]"
    by (simp add: accepted_rows_def eval_defs example_defs)
  with merge_transactions_append_only[OF example_merge example_valid] example_valid example_merge
  show ?thesis by simp
qed




text \<open>
  Claim C4. Let the model be built from a ledger by \<^verbatim>\<open>group_transactions_by_category\<close>; it
  has an entry for a description exactly when the ledger has a categorised row of that
  description. When every row of the list without a category has a hashable
  description, \<^verbatim>\<open>apply_transaction_categories\<close> returns without an exception. Whenever it
  returns, every row of the list that had no category, whether the key was missing or
  its value empty, afterwards reads a category under the key: \<open>None\<close> when the model has no
  entry for the row's description, and otherwise a category that the ledger gives that
  description at least once and at least as often as any other. Every other field of
  the row is unchanged.
\<close>

theorem apply_transaction_categories_infers:
  assumes grp: "group_transactions_by_category ledger = Inr category_data"
    and v: "valid_refs h transactions"
  shows "((\<forall>a\<in>set transactions. \<not> truthy (dict_get (h ! a) ''category'') \<longrightarrow>
             (\<exists>d. map_of (h ! a) ''description'' = Some d \<and> hashable d)) \<longrightarrow>
          (\<exists>h'. apply_transaction_categories h transactions category_data = Inr (h', transactions)))
       \<and> (\<forall>h' ts'. apply_transaction_categories h transactions category_data = Inr (h', ts') \<longrightarrow>
            (\<forall>a\<in>set transactions. \<not> truthy (dict_get (h ! a) ''category'') \<longrightarrow>
               (\<exists>d c. map_of (h ! a) ''description'' = Some d
                    \<and> map_of (h' ! a) ''category'' = Some c
                    \<and> dict_get (h' ! a) ''category'' = c
                    \<and> (\<forall>k. k \<noteq> ''category'' \<longrightarrow> map_of (h' ! a) k = map_of (h ! a) k)
                    \<and> h' ! a = dict_setitem ''category'' c (h ! a)
                    \<and> (pd_find category_data d = None \<longleftrightarrow> (\<forall>c'. votes ledger d c' = 0))
                    \<and> (pd_find category_data d = None \<longrightarrow> c = PNone)
                    \<and> (pd_find category_data d \<noteq> None \<longrightarrow>
                           0 < votes ledger d c
                         \<and> (\<forall>c'. votes ledger d c' \<le> votes ledger d c)))))"
proof (intro conjI impI allI ballI)
  assume "\<forall>a\<in>set transactions. \<not> truthy (dict_get (h ! a) ''category'') \<longrightarrow>
             (\<exists>d. map_of (h ! a) ''description'' = Some d \<and> hashable d)"
  from apply_loop_total[OF this v, of category_data]
  show "\<exists>h'. apply_transaction_categories h transactions category_data = Inr (h', transactions)"
    by (auto simp: apply_transaction_categories_def)
next
  fix h' ts' a
  assume app: "apply_transaction_categories h transactions category_data = Inr (h', ts')"
    and a: "a \<in> set transactions" and f: "\<not> truthy (dict_get (h ! a) ''category'')"
  from app have loop: "apply_loop category_data transactions h = Inr h'"
    by (auto simp: apply_transaction_categories_def split: sum.splits)
  from a v have "a < length h" by (auto simp: valid_refs_def list_all_iff)
  from apply_loop_infers[OF loop a this f]
  obtain c where c: "infer_category category_data (h ! a) = Inr c"
    and h': "h' ! a = dict_setitem ''category'' c (h ! a)" by blast
  from infer_category_votes[OF grp c] obtain d where d:
    "map_of (h ! a) ''description'' = Some d"
    "pd_find category_data d = None \<longrightarrow> c = PNone"
    "pd_find category_data d \<noteq> None \<longrightarrow>
       0 < votes ledger d c \<and> (\<forall>c'. votes ledger d c' \<le> votes ledger d c)"
    by (elim exE conjE)
  from h' have r1: "map_of (h' ! a) ''category'' = Some c"
    and r2: "dict_get (h' ! a) ''category'' = c"
    and r3: "\<forall>k. k \<noteq> ''category'' \<longrightarrow> map_of (h' ! a) k = map_of (h ! a) k"
    by (simp_all add: map_of_dict_setitem dict_get_setitem)
  note r4 = model_entry_iff_votes[OF grp, of d]
  show "\<exists>d c. map_of (h ! a) ''description'' = Some d
                    \<and> map_of (h' ! a) ''category'' = Some c
                    \<and> dict_get (h' ! a) ''category'' = c
                    \<and> (\<forall>k. k \<noteq> ''category'' \<longrightarrow> map_of (h' ! a) k = map_of (h ! a) k)
                    \<and> h' ! a = dict_setitem ''category'' c (h ! a)
                    \<and> (pd_find category_data d = None \<longleftrightarrow> (\<forall>c'. votes ledger d c' = 0))
                    \<and> (pd_find category_data d = None \<longrightarrow> c = PNone)
                    \<and> (pd_find category_data d \<noteq> None \<longrightarrow>
                           0 < votes ledger d c
                         \<and> (\<forall>c'. votes ledger d c' \<le> votes ledger d c))"
    by (rule exI[of _ d], rule exI[of _ c]) (intro conjI d r1 r2 r3 h' r4)
qed

theorem apply_transaction_categories_infers_witness:
  "group_transactions_by_category (example_heap @ [example_blank]) = Inr example_categories
   \<and> valid_refs (example_heap @ [example_blank, example_row, example_twin_row]) [0, 1, 2, 3, 4, 5]
   \<and> apply_transaction_categories (example_heap @ [example_blank, example_row, example_twin_row])
       [0, 1, 2, 3, 4, 5] example_categories =
     Inr (example_heap @ [dict_setitem ''category'' (PStr ''Dining'') example_blank,
                          dict_setitem ''category'' (PStr ''Dining'') example_row,
                          dict_setitem ''category'' PNone example_twin_row], [0, 1, 2, 3, 4, 5])
   \<and> map (\<lambda>a. map_of ((example_heap @ [example_blank, example_row, example_twin_row]) ! a)
         ''category'') [3, 4, 5] = [Some PNone, None, None]
   \<and> map (\<lambda>a. dict_get ((example_heap @ [example_blank, example_row, example_twin_row]) ! a)
         ''description'') [3, 4, 5] = [PStr ''COFFEE SHOP'', PStr ''COFFEE SHOP'', PStr ''TEA SHOP'']
   \<and> map (votes (example_heap @ [example_blank]) (PStr ''COFFEE SHOP''))
         [PStr ''Dining'', PStr ''Groceries''] = [2, 1]
   \<and> pd_find example_categories (PStr ''TEA SHOP'') = None
   \<and> map (\<lambda>a. map_of ((example_heap @ [dict_setitem ''category'' (PStr ''Dining'') example_blank,
                          dict_setitem ''category'' (PStr ''Dining'') example_row,
                          dict_setitem ''category'' PNone example_twin_row]) ! a) ''category'')
         [3, 4, 5] = [Some (PStr ''Dining''), Some (PStr ''Dining''), Some PNone]
   \<and> (example_heap @ [dict_setitem ''category'' (PStr ''Dining'') example_blank,
                          dict_setitem ''category'' (PStr ''Dining'') example_row,
                          dict_setitem ''category'' PNone example_twin_row]) ! 3 =
       [(''date'', PDate 2017 3 3), (''description'', PStr ''COFFEE SHOP''),
        (''transaction_id'', PStr ''tx_120''), (''category'', PStr ''Dining'')]"
proof -
  have "map (\<lambda>a. map_of ((example_heap @ [example_blank, example_row, example_twin_row]) ! a)
         ''category'') [3, 4, 5] = [Some PNone, None, None]"
   and "map (\<lambda>a. dict_get ((example_heap @ [example_blank, example_row, example_twin_row]) ! a)
         ''description'') [3, 4, 5] = [PStr ''COFFEE SHOP'', PStr ''COFFEE SHOP'', PStr ''TEA SHOP'']"
   and "map (votes (example_heap @ [example_blank]) (PStr ''COFFEE SHOP''))
         [PStr ''Dining'', PStr ''Groceries''] = [2, 1]"
   and "pd_find example_categories (PStr ''TEA SHOP'') = None"
   and "map (\<lambda>a. map_of ((example_heap @ [dict_setitem ''category'' (PStr ''Dining'') example_blank,
                          dict_setitem ''category'' (PStr ''Dining'') example_row,
                          dict_setitem ''category'' PNone example_twin_row]) ! a) ''category'')
         [3, 4, 5] = [Some (PStr ''Dining''), Some (PStr ''Dining''), Some PNone]"
   and "(example_heap @ [dict_setitem ''category'' (PStr ''Dining'') example_blank,
                          dict_setitem ''category'' (PStr ''Dining'') example_row,
                          dict_setitem ''category'' PNone example_twin_row]) ! 3 =
       [(''date'', PDate 2017 3 3), (''description'', PStr ''COFFEE SHOP''),
        (''transaction_id'', PStr ''tx_120''), (''category'', PStr ''Dining'')]"
    by (simp_all add: dict_get_def dict_get_or_def votes_def py_eq_def example_defs
        example_blank_def example_categories_def)
  with apply_transaction_categories_infers[OF example_group_blank example_valid_blank]
    example_group_blank example_valid_blank example_apply_blank
  show ?thesis by blast
qed

text \<open>
  Claim C5. A row of the list that carries a non-empty category is left as it is by
  \<^verbatim>\<open>apply_transaction_categories\<close>: the row, and so its category, is unchanged, and the
  function returns the list it was given.
\<close>

theorem apply_transaction_categories_keeps:
  assumes "apply_transaction_categories h transactions category_data = Inr (h', transactions')"
    and "a \<in> set transactions"
    and "truthy (dict_get (h ! a) ''category'')"
  shows "h' ! a = h ! a
       \<and> dict_get (h' ! a) ''category'' = dict_get (h ! a) ''category''
       \<and> transactions' = transactions"
proof -
  from assms(1) have loop: "apply_loop category_data transactions h = Inr h'"
    and same: "transactions' = transactions"
    by (auto simp: apply_transaction_categories_def split: sum.splits)
  from apply_loop_frame[OF loop, of a] assms(3) have "h' ! a = h ! a" by simp
  with same show ?thesis by simp
qed

theorem apply_transaction_categories_keeps_witness:
  "apply_transaction_categories (example_heap @ [example_row, example_twin_row]) [0, 1, 2, 3, 4]
     example_categories =
   Inr (example_heap @ [dict_setitem ''category'' (PStr ''Dining'') example_row,
                        dict_setitem ''category'' PNone example_twin_row], [0, 1, 2, 3, 4])
   \<and> (2::nat) \<in> set [0, 1, 2, 3, 4]
   \<and> truthy (dict_get ((example_heap @ [example_row, example_twin_row]) ! 2) ''category'')
   \<and> dict_get ((example_heap @ [dict_setitem ''category'' (PStr ''Dining'') example_row,
                        dict_setitem ''category'' PNone example_twin_row]) ! 2) ''category'' =
       PStr ''Groceries''"
proof -
  have a: "(2::nat) \<in> set [0, 1, 2, 3, 4]" by simp
  have t: "truthy (dict_get ((example_heap @ [example_row, example_twin_row]) ! 2) ''category'')"
    and c: "dict_get ((example_heap @ [example_row, example_twin_row]) ! 2) ''category'' = PStr ''Groceries''"
    by (simp_all add: dict_get_def dict_get_or_def example_heap_def)
  from apply_transaction_categories_keeps[OF example_apply a t] c example_apply a t
  show ?thesis by simp
qed

text \<open>
  Claim C6, which the code breaks. The start date passed to the fetch is the latest date
  of the ledger itself, formatted \<^verbatim>\<open>%Y-%m-%d\<close>: line 133 adds no day, although the
  docstring of \<^verbatim>\<open>query_plaid_transactions\<close> says the date is the maximum plus one. For
  the example ledger, whose latest date is 4 March 2017, the start date is 2017-03-04.
\<close>

theorem start_date_is_latest_date:
  "map (\<lambda>row. dict_get row ''date'') example_heap = [PDate 2017 3 1, PDate 2017 3 4, PDate 2017 3 2]
   \<and> start_date example_heap = Inr ''2017-03-04''"
  by (simp add: start_date_def max_by_date_def dict_getitem_def dict_get_def dict_get_or_def
      strftime_def decimal.simps digit_def example_heap_def)

text \<open>
  Claim C7, which the code breaks. A fetched transaction without a location is merged,
  and the row built for it has \<open>city\<close>, \<open>state\<close>, \<open>zip\<close> and \<open>country\<close> equal to
  \<open>None\<close>, but its \<open>address\<close> is the empty dictionary: line 99 passes \<^verbatim>\<open>{}\<close> as the
  default of the inner \<^verbatim>\<open>get\<close>, where lines 100 to 103 pass none. The same holds for a
  location that has a city and no address.
\<close>

theorem merge_transactions_address_default:
  "merge_transactions example_heap [0, 1, 2] [example_new] example_accounts =
     Inr (example_heap @ [example_row], [0, 1, 2, 3])
   \<and> map_of example_new ''location'' = None
   \<and> map (dict_get example_row) [''address'', ''city'', ''state'', ''zip'', ''country''] =
       [PDict [], PNone, PNone, PNone, PNone]
   \<and> map_of example_partial ''location'' = Some (PDict [(''city'', PStr ''Oslo'')])
   \<and> (case transaction_dict example_accounts example_partial of
         Inr (Some d) \<Rightarrow> map (dict_get d) [''address'', ''city'', ''state'', ''zip'', ''country'']
       | _ \<Rightarrow> []) =
       [PDict [], PStr ''Oslo'', PNone, PNone, PNone]"
  using example_merge_new
  by (simp add: eval_defs example_defs)

text \<open>
  Claim C8, as amended. A fetched transaction whose id is not in the ledger and whose
  account id is not a key of the account table makes \<^verbatim>\<open>merge_transactions\<close> fail: it
  returns no list at all, so no row of that transaction reaches the output. When the
  transactions before it are merged without an exception, the exception is the
  \<open>KeyError\<close> of the table lookup, which carries the account id. It does not name the
  transaction: two different transactions of the same missing account raise the same
  exception, as the counterexample shows.
\<close>

theorem merge_transactions_unresolved_account:
  assumes t: "t \<in> set new"
    and fresh: "\<not> list_ex (has_id h (dict_get t ''transaction_id'')) existing"
    and absent: "pd_find account_data (dict_get t ''account_id'') = None"
  shows "(\<exists>e. merge_transactions h existing new account_data = Inl e)
       \<and> (\<forall>pre post r.
             new = pre @ t # post
             \<and> merge_transactions h existing pre account_data = Inr r
             \<and> hashable (dict_get t ''transaction_id'')
             \<and> hashable (dict_get t ''account_id'')
             \<longrightarrow> merge_transactions h existing new account_data =
                   Inl (KeyError (dict_get t ''account_id'')))"
proof -
  let ?ids = "transaction_ids (rows_of h existing)"
  note nid = not_has_id_ids[OF fresh]
  have fails: "\<exists>e. merge_transactions h existing new account_data = Inl e"
  proof (cases "merge_transactions h existing new account_data")
    case (Inl e)
    then show ?thesis by blast
  next
    case (Inr r)
    obtain h' merged where "r = (h', merged)" by (cases r)
    with Inr merge_transactions_Inr(4)[of h existing new account_data h' merged] t
    obtain r' where "merge_step ?ids account_data t = Inr r'" by blast
    with merge_step_unresolved(1)[OF nid absent] show ?thesis by auto
  qed
  have first: "\<forall>pre post r.
             new = pre @ t # post
             \<and> merge_transactions h existing pre account_data = Inr r
             \<and> hashable (dict_get t ''transaction_id'')
             \<and> hashable (dict_get t ''account_id'')
             \<longrightarrow> merge_transactions h existing new account_data =
                   Inl (KeyError (dict_get t ''account_id''))"
  proof (intro allI impI, elim conjE)
    fix pre post r
    assume new: "new = pre @ t # post"
      and pre: "merge_transactions h existing pre account_data = Inr r"
      and h1: "hashable (dict_get t ''transaction_id'')"
      and h2: "hashable (dict_get t ''account_id'')"
    obtain h' merged where r: "r = (h', merged)" by (cases r)
    from pre r have set_ok: "py_set ?ids = Inr ?ids"
      and loop: "merge_loop ?ids account_data pre h existing = Inr (h', merged)"
      by (auto simp: merge_transactions_def py_set_def split: if_splits)
    from merge_step_unresolved(2)[OF nid absent h1 h2]
    have "merge_loop ?ids account_data (t # post) h' merged =
            Inl (KeyError (dict_get t ''account_id''))"
      by simp
    with loop have "merge_loop ?ids account_data (pre @ t # post) h existing =
            Inl (KeyError (dict_get t ''account_id''))"
      by (simp add: merge_loop_append)
    with set_ok new show "merge_transactions h existing new account_data =
                   Inl (KeyError (dict_get t ''account_id''))"
      by (simp add: merge_transactions_def)
  qed
  from fails first show ?thesis by blast
qed

theorem merge_transactions_unresolved_account_witness:
  "example_orphan_a \<in> set [example_new, example_orphan_a]
   \<and> \<not> list_ex (has_id example_heap (dict_get example_orphan_a ''transaction_id'')) [0, 1, 2]
   \<and> pd_find example_accounts (dict_get example_orphan_a ''account_id'') = None
   \<and> merge_transactions example_heap [0, 1, 2] [example_new] example_accounts =
       Inr (example_heap @ [example_row], [0, 1, 2, 3])
   \<and> merge_transactions example_heap [0, 1, 2] [example_new, example_orphan_a] example_accounts =
       Inl (KeyError (PStr ''acc_9''))"
proof -
  have t: "example_orphan_a \<in> set [example_new, example_orphan_a]" by simp
  have fresh: "\<not> list_ex (has_id example_heap (dict_get example_orphan_a ''transaction_id'')) [0, 1, 2]"
    by (simp add: has_id_def dict_get_def dict_get_or_def py_eq_def example_defs)
  have absent: "pd_find example_accounts (dict_get example_orphan_a ''account_id'') = None"
    by (simp add: dict_get_def dict_get_or_def py_eq_def example_defs)
  have hash: "hashable (dict_get example_orphan_a ''transaction_id'')"
    "hashable (dict_get example_orphan_a ''account_id'')"
    "dict_get example_orphan_a ''account_id'' = PStr ''acc_9''"
    by (simp_all add: dict_get_def dict_get_or_def example_defs)
  from merge_transactions_unresolved_account[OF t fresh absent] example_merge_new hash
  have "merge_transactions example_heap [0, 1, 2] [example_new, example_orphan_a] example_accounts =
       Inl (KeyError (PStr ''acc_9''))"
    by (metis append_Cons append_Nil)
  with t fresh absent example_merge_new show ?thesis by blast
qed

theorem merge_transactions_same_error_counterexample:
  "merge_transactions example_heap [0, 1, 2] [example_orphan_a] example_accounts =
     Inl (KeyError (PStr ''acc_9''))
   \<and> merge_transactions example_heap [0, 1, 2] [example_orphan_b] example_accounts =
     Inl (KeyError (PStr ''acc_9''))
   \<and> dict_get example_orphan_a ''transaction_id'' = PStr ''tx_126''
   \<and> dict_get example_orphan_b ''transaction_id'' = PStr ''tx_127''"
  by (simp add: eval_defs example_defs)

text \<open>
  Claim C9, as amended. \<^verbatim>\<open>save_results_to_csv\<close> fails before it opens the output file,
  which is left as it was, when the list is empty (\<open>IndexError\<close>) and when the number of
  fields of the first record differs from the number of field names
  (\<open>AssertionError\<close>). Only the first record is counted: a later record with fewer fields
  is written with blanks and nothing fails, and a later record with a field outside the
  layout fails after the file has been opened and written to, as the counterexample
  shows.
\<close>

theorem save_results_to_csv_guard:
  "(transactions = [] \<longrightarrow>
      save_results_to_csv transactions fieldnames file = (Some IndexError, file))
   \<and> (\<forall>first rest. transactions = first # rest \<and> length first \<noteq> length fieldnames \<longrightarrow>
      save_results_to_csv transactions fieldnames file = (Some AssertionError, file))"
  by (simp add: save_results_to_csv_def)

theorem save_results_to_csv_guard_witness:
  "save_results_to_csv [] example_fieldnames example_old_file = (Some IndexError, example_old_file)
   \<and> length [(''transaction_id'', PStr ''tx_2'')] \<noteq> length example_fieldnames
   \<and> save_results_to_csv [[(''transaction_id'', PStr ''tx_2'')], [(''transaction_id'', PStr ''tx_3''), (''category'', PNone)]]
        example_fieldnames example_old_file = (Some AssertionError, example_old_file)"
  using save_results_to_csv_guard[of "[]" example_fieldnames example_old_file]
    save_results_to_csv_guard[of "[[(''transaction_id'', PStr ''tx_2'')], [(''transaction_id'', PStr ''tx_3''), (''category'', PNone)]]"
      example_fieldnames example_old_file]
  by (simp add: example_fieldnames_def)

theorem save_results_to_csv_later_record_counterexample:
  "save_results_to_csv
     [[(''transaction_id'', PStr ''tx_2''), (''category'', PStr ''Dining'')],
      [(''transaction_id'', PStr ''tx_3'')]]
     example_fieldnames example_old_file =
   (None, Some [[PStr ''transaction_id'', PStr ''category''],
                [PStr ''tx_2'', PStr ''Dining''],
                [PStr ''tx_3'', PStr []]])
   \<and> length [(''transaction_id'', PStr ''tx_3'')] \<noteq> length example_fieldnames
   \<and> length [(''transaction_id'', PStr ''tx_3''), (''category'', PNone), (''memo'', PNone)] \<noteq>
       length example_fieldnames
   \<and> fst (save_results_to_csv
     [[(''transaction_id'', PStr ''tx_2''), (''category'', PStr ''Dining'')],
      [(''transaction_id'', PStr ''tx_3''), (''category'', PNone), (''memo'', PNone)]]
     example_fieldnames example_old_file) = Some ValueError
   \<and> snd (save_results_to_csv
     [[(''transaction_id'', PStr ''tx_2''), (''category'', PStr ''Dining'')],
      [(''transaction_id'', PStr ''tx_3''), (''category'', PNone), (''memo'', PNone)]]
     example_fieldnames example_old_file) \<noteq> example_old_file"
  by (simp add: save_defs)

text \<open>
  Claim C10. With the account table that \<^verbatim>\<open>build_account_details\<close> builds, every row
  that \<^verbatim>\<open>merge_transactions\<close> appends has the same value under \<open>institution_type\<close> and
  \<open>account_type\<close>: the type of one of the provider's accounts.
\<close>

theorem new_rows_institution_type:
  assumes b: "build_account_details bank_name_mapping account_response = Inr account_data"
    and m: "merge_transactions h existing new account_data = Inr (h', merged)"
  shows "\<forall>a\<in>set (drop (length existing) merged). \<exists>account\<in>set account_response.
           map_of (h' ! a) ''institution_type'' = Some (dict_get account ''type'')
         \<and> map_of (h' ! a) ''account_type'' = Some (dict_get account ''type'')"
proof
  fix a assume a: "a \<in> set (drop (length existing) merged)"
  let ?ids = "transaction_ids (rows_of h existing)"
  let ?rs = "accepted_rows ?ids account_data new"
  note f = merge_transactions_Inr[OF m]
  from f(2,3) have new_rows: "rows_of h' (drop (length existing) merged) = ?rs"
    by (simp add: rows_of_new)
  from a have "h' ! a \<in> set (rows_of h' (drop (length existing) merged))"
    by (simp add: rows_of_def)
  with new_rows have "h' ! a \<in> set ?rs" by simp
  then obtain t where "merge_step ?ids account_data t = Inr (Some (h' ! a))"
    by (auto simp: accepted_rows_mem)
  then have td: "transaction_dict account_data t = Inr (Some (h' ! a))"
    by (auto simp: merge_step_def split: sum.splits bool.splits)
  from b have "\<forall>d\<in>snd ` set account_data. \<exists>account\<in>set account_response. account_record_of account d"
    unfolding build_account_details_def
    by (rule build_loop_records) simp_all
  from transaction_dict_types[OF td this]
  show "\<exists>account\<in>set account_response.
           map_of (h' ! a) ''institution_type'' = Some (dict_get account ''type'')
         \<and> map_of (h' ! a) ''account_type'' = Some (dict_get account ''type'')" .
qed

theorem new_rows_institution_type_witness:
  "build_account_details example_mapping example_account_response = Inr example_accounts
   \<and> merge_transactions example_heap [0, 1, 2] example_fetch example_accounts =
       Inr (example_heap @ [example_row], [0, 1, 2, 3])
   \<and> map_of ((example_heap @ [example_row]) ! 3) ''institution_type'' = Some (PStr ''depository'')
   \<and> map_of ((example_heap @ [example_row]) ! 3) ''account_type'' = Some (PStr ''depository'')"
proof -
  from new_rows_institution_type[OF example_build example_merge]
  have "map_of ((example_heap @ [example_row]) ! 3) ''institution_type'' = Some (PStr ''depository'')
   \<and> map_of ((example_heap @ [example_row]) ! 3) ''account_type'' = Some (PStr ''depository'')"
    by (simp add: example_account_response_def dict_get_def dict_get_or_def)
  with example_build example_merge show ?thesis by blast
qed

end
